theory Spec2Isabelle
  imports Main "HOL-Library.Sublist"
begin

section \<open>Data model (types/Task.ts)\<close>

text \<open>
  \<^verbatim>\<open>export type Priority = 'high' | 'medium' | 'low';\<close>
\<close>

datatype Priority = High | Medium | Low

text \<open>
  A JavaScript \<^verbatim>\<open>Date\<close> is a point in time with millisecond resolution; it is modelled by
  its time value, the number of milliseconds since the epoch. Invalid dates (time value
  NaN) are outside the model.
\<close>

type_synonym Date = int

text \<open>
  \<^verbatim>\<open>TaskFormData\<close> and \<^verbatim>\<open>Task\<close> are declared separately in the source, with the four
  fields \<^verbatim>\<open>title\<close>, \<^verbatim>\<open>description?\<close>, \<^verbatim>\<open>priority\<close>, \<^verbatim>\<open>dueDate?\<close> in common; under
  TypeScript's structural typing a \<^verbatim>\<open>Task\<close> is a \<^verbatim>\<open>TaskFormData\<close> with four more fields,
  which is what the record extension says. An optional field is an \<open>option\<close>; \<open>None\<close>
  stands for \<^verbatim>\<open>undefined\<close>. The field \<^verbatim>\<open>id\<close> is called \<open>id_task\<close> here.
\<close>

record TaskFormData =
  title :: string
  description :: "string option"
  priority :: Priority
  dueDate :: "Date option"

record Task = TaskFormData +
  id_task :: string
  completed :: bool
  createdAt :: Date
  updatedAt :: Date

section \<open>The environment: system clock and random numbers\<close>

text \<open>
  \<^verbatim>\<open>new Date()\<close> and \<^verbatim>\<open>Date.now()\<close> read the system clock, and the source reads it several
  times inside one operation. The clock is the sequence of its successive readings,
  \<open>clk k\<close> being the reading number \<open>k\<close>; the store below counts the readings taken so
  far. In the same way \<open>rnd r\<close> is the text that the draw number \<open>r\<close> of
  \<^verbatim>\<open>Math.random().toString(36).substr(2)\<close> produces (the floating-point computation behind
  it is not modelled, only its result).
\<close>

type_synonym clock = "nat \<Rightarrow> Date"
type_synonym randomness = "nat \<Rightarrow> string"

section \<open>Strings\<close>

text \<open>
  Strings are modelled as ASCII text. \<^verbatim>\<open>Number.prototype.toString(36)\<close> on an integer writes
  it in base 36 with the digits \<^verbatim>\<open>0-9a-z\<close>, most significant first, and a leading minus
  sign for a negative number.
\<close>

definition digit36 :: "nat \<Rightarrow> char" where
  "digit36 d = ''0123456789abcdefghijklmnopqrstuvwxyz'' ! d"

fun digits36 :: "nat \<Rightarrow> string" where
  "digits36 n = (if n < 36 then [digit36 n] else digits36 (n div 36) @ [digit36 (n mod 36)])"

declare digits36.simps [simp del]

definition toString36 :: "int \<Rightarrow> string" where
  "toString36 i = (if i < 0 then CHR ''-'' # digits36 (nat (- i)) else digits36 (nat i))"

text \<open>The value of a base-36 digit, by which a numeral is read back.\<close>

definition value36 :: "char \<Rightarrow> nat" where
  "value36 c = (let n = (of_char c :: nat) in if n \<le> 57 then n - 48 else n - 87)"

text \<open>\<^verbatim>\<open>String.prototype.toLowerCase\<close>, on ASCII letters.\<close>

definition lowerChar :: "char \<Rightarrow> char" where
  "lowerChar c =
     (let n = (of_char c :: nat) in if 65 \<le> n \<and> n \<le> 90 then char_of (n + 32) else c)"

definition toLowerCase :: "string \<Rightarrow> string" where
  "toLowerCase s = map lowerChar s"

text \<open>
  \<^verbatim>\<open>String.prototype.trim\<close> removes white space and line terminators from both ends; the
  ASCII ones are tab, line feed, vertical tab, form feed, carriage return and space.
\<close>

definition isWhiteSpace :: "char \<Rightarrow> bool" where
  "isWhiteSpace c = ((of_char c :: nat) \<in> {9, 10, 11, 12, 13, 32})"

definition trim :: "string \<Rightarrow> string" where
  "trim s = rev (dropWhile isWhiteSpace (rev (dropWhile isWhiteSpace s)))"

text \<open>\<^verbatim>\<open>s.includes(q)\<close>: \<open>q\<close> occurs in \<open>s\<close> as a contiguous substring.\<close>

fun includes_str :: "string \<Rightarrow> string \<Rightarrow> bool" where
  "includes_str [] q = (q = [])"
| "includes_str (c # cs) q = (prefix q (c # cs) \<or> includes_str cs q)"

section \<open>The task store (hooks/useTasks.ts)\<close>

text \<open>
  The three pieces of React state of \<^verbatim>\<open>useTasks\<close>, together with the position reached in
  the environment: \<open>reads\<close> clock readings and \<open>draws\<close> random draws have been taken so
  far. \<^verbatim>\<open>setTasks(prev => f(prev))\<close> replaces \<open>tasks\<close> by \<open>f\<close> of its current value. The
  write-through of \<open>tasks\<close> to local storage is the business of \<^verbatim>\<open>useLocalStorage\<close> and is
  treated in its own section.
\<close>

record Store =
  tasks :: "Task list"
  editingTask :: "Task option"
  searchQuery :: string
  reads :: nat
  draws :: nat

text \<open>
  \<^verbatim>\<open>useLocalStorage<Task[]>('tasks', [])\<close>, \<^verbatim>\<open>useState<Task | null>(null)\<close>, \<^verbatim>\<open>useState('')\<close>
  with nothing stored.
\<close>

definition emptyStore :: Store where
  "emptyStore = \<lparr>tasks = [], editingTask = None, searchQuery = [], reads = 0, draws = 0\<rparr>"

text \<open>
  \<^verbatim>\<open>Date.now().toString(36) + Math.random().toString(36).substr(2)\<close>, at clock reading \<open>k\<close>
  and random draw \<open>r\<close>.
\<close>

definition generateId :: "clock \<Rightarrow> randomness \<Rightarrow> nat \<Rightarrow> nat \<Rightarrow> string" where
  "generateId clk rnd k r = toString36 (clk k) @ rnd r"

text \<open>
  \<^verbatim>\<open>addTask\<close>: the object literal is evaluated in source order, so the clock is read three
  times: by \<^verbatim>\<open>generateId()\<close>, by \<^verbatim>\<open>createdAt: new Date()\<close> and by \<^verbatim>\<open>updatedAt: new Date()\<close>.
\<close>

definition newTask :: "clock \<Rightarrow> randomness \<Rightarrow> nat \<Rightarrow> nat \<Rightarrow> TaskFormData \<Rightarrow> Task" where
  "newTask clk rnd k r taskData =
     \<lparr>title = title taskData,
      description = description taskData,
      priority = priority taskData,
      dueDate = dueDate taskData,
      id_task = generateId clk rnd k r,
      completed = False,
      createdAt = clk (k + 1),
      updatedAt = clk (k + 2)\<rparr>"

definition addTask :: "clock \<Rightarrow> randomness \<Rightarrow> TaskFormData \<Rightarrow> Store \<Rightarrow> Store" where
  "addTask clk rnd taskData s =
     s\<lparr>tasks := tasks s @ [newTask clk rnd (reads s) (draws s) taskData],
       reads := reads s + 3,
       draws := draws s + 1\<rparr>"

text \<open>
  The callback of \<^verbatim>\<open>prev.map(...)\<close> in \<^verbatim>\<open>editTask\<close>: a task whose id is that of the task
  being edited is rebuilt with the form's four fields and \<^verbatim>\<open>updatedAt: new Date()\<close>, which
  reads the clock once for each such task, in list order; every other task is returned
  as it is.
\<close>

fun editMap :: "clock \<Rightarrow> string \<Rightarrow> TaskFormData \<Rightarrow> Task list \<Rightarrow> nat \<Rightarrow> Task list \<times> nat" where
  "editMap clk eid taskData [] k = ([], k)"
| "editMap clk eid taskData (task # rest) k =
     (if id_task task = eid
      then (let (rest', k') = editMap clk eid taskData rest (Suc k)
            in (task\<lparr>title := title taskData,
                      description := description taskData,
                      priority := priority taskData,
                      dueDate := dueDate taskData,
                      updatedAt := clk k\<rparr> # rest', k'))
      else (let (rest', k') = editMap clk eid taskData rest k
            in (task # rest', k')))"

definition editTask :: "clock \<Rightarrow> TaskFormData \<Rightarrow> Store \<Rightarrow> Store" where
  "editTask clk taskData s =
     (case editingTask s of
        None \<Rightarrow> s
      | Some e \<Rightarrow>
          (let (ts, k) = editMap clk (id_task e) taskData (tasks s) (reads s)
           in s\<lparr>tasks := ts, reads := k, editingTask := None\<rparr>))"

text \<open>
  \<^verbatim>\<open>deleteTask\<close>: \<^verbatim>\<open>editingTask?.id === taskId\<close> is false when nothing is being edited.
\<close>

definition deleteTask :: "string \<Rightarrow> Store \<Rightarrow> Store" where
  "deleteTask taskId s =
     s\<lparr>tasks := filter (\<lambda>task. id_task task \<noteq> taskId) (tasks s),
       editingTask := (case editingTask s of
                         None \<Rightarrow> None
                       | Some e \<Rightarrow> if id_task e = taskId then None else Some e)\<rparr>"

text \<open>The callback of \<^verbatim>\<open>prev.map(...)\<close> in \<^verbatim>\<open>toggleTaskComplete\<close>.\<close>

fun toggleMap :: "clock \<Rightarrow> string \<Rightarrow> Task list \<Rightarrow> nat \<Rightarrow> Task list \<times> nat" where
  "toggleMap clk taskId [] k = ([], k)"
| "toggleMap clk taskId (task # rest) k =
     (if id_task task = taskId
      then (let (rest', k') = toggleMap clk taskId rest (Suc k)
            in (task\<lparr>completed := \<not> completed task, updatedAt := clk k\<rparr> # rest', k'))
      else (let (rest', k') = toggleMap clk taskId rest k
            in (task # rest', k')))"

definition toggleTaskComplete :: "clock \<Rightarrow> string \<Rightarrow> Store \<Rightarrow> Store" where
  "toggleTaskComplete clk taskId s =
     (let (ts, k) = toggleMap clk taskId (tasks s) (reads s)
      in s\<lparr>tasks := ts, reads := k\<rparr>)"

definition startEditingTask :: "Task \<Rightarrow> Store \<Rightarrow> Store" where
  "startEditingTask task s = s\<lparr>editingTask := Some task\<rparr>"

definition cancelEditing :: "Store \<Rightarrow> Store" where
  "cancelEditing s = s\<lparr>editingTask := None\<rparr>"

definition clearAllTasks :: "Store \<Rightarrow> Store" where
  "clearAllTasks s = s\<lparr>tasks := [], editingTask := None, searchQuery := []\<rparr>"

definition setSearchQuery :: "string \<Rightarrow> Store \<Rightarrow> Store" where
  "setSearchQuery query s = s\<lparr>searchQuery := query\<rparr>"

section \<open>Derived views\<close>

text \<open>
  \<^verbatim>\<open>filteredTasks\<close>. \<^verbatim>\<open>task.description.toLowerCase()\<close> is a method call on
  \<^verbatim>\<open>task.description\<close>; when the description is \<^verbatim>\<open>undefined\<close> the call throws a
  \<^verbatim>\<open>TypeError\<close>. It is the right operand of \<^verbatim>\<open>||\<close>, so it is evaluated only when the title
  does not contain the query. An exception thrown by the callback of \<^verbatim>\<open>filter\<close> ends the
  whole evaluation.
\<close>

datatype error = TypeError

definition matchesQuery :: "string \<Rightarrow> Task \<Rightarrow> error + bool" where
  "matchesQuery query task =
     (if includes_str (toLowerCase (title task)) query then Inr True
      else (case description task of
              None \<Rightarrow> Inl TypeError
            | Some d \<Rightarrow> Inr (includes_str (toLowerCase d) query)))"

fun filterTasks :: "string \<Rightarrow> Task list \<Rightarrow> error + Task list" where
  "filterTasks query [] = Inr []"
| "filterTasks query (task # rest) =
     (case matchesQuery query task of
        Inl e \<Rightarrow> Inl e
      | Inr keep \<Rightarrow>
          (case filterTasks query rest of
             Inl e \<Rightarrow> Inl e
           | Inr rest' \<Rightarrow> Inr (if keep then task # rest' else rest')))"

definition filteredTasks :: "Store \<Rightarrow> error + Task list" where
  "filteredTasks s =
     (if trim (searchQuery s) = [] then Inr (tasks s)
      else filterTasks (toLowerCase (searchQuery s)) (tasks s))"

text \<open>
  \<^verbatim>\<open>taskStats\<close>. The callback of the second \<^verbatim>\<open>filter\<close> returns false for a task without due
  date or already completed, and otherwise compares the due date with \<^verbatim>\<open>new Date()\<close>,
  reading the clock once for each such task. The counts are natural numbers; the number
  of completed tasks never exceeds the total, so the subtraction does not truncate.
\<close>

record TaskStats =
  total :: nat
  completed_stats :: nat
  pending :: nat
  overdue :: nat

fun overdueFilter :: "clock \<Rightarrow> Task list \<Rightarrow> nat \<Rightarrow> Task list \<times> nat" where
  "overdueFilter clk [] k = ([], k)"
| "overdueFilter clk (task # rest) k =
     (case dueDate task of
        None \<Rightarrow> overdueFilter clk rest k
      | Some due \<Rightarrow>
          if completed task then overdueFilter clk rest k
          else (let (rest', k') = overdueFilter clk rest (Suc k)
                in (if due < clk k then task # rest' else rest', k')))"

definition taskStats :: "clock \<Rightarrow> Store \<Rightarrow> TaskStats \<times> Store" where
  "taskStats clk s =
     (let total = length (tasks s);
          completed = length (filter completed (tasks s));
          pending = total - completed;
          (late, k) = overdueFilter clk (tasks s) (reads s)
      in (\<lparr>total = total, completed_stats = completed, pending = pending, overdue = length late\<rparr>,
          s\<lparr>reads := k\<rparr>))"

section \<open>Sequences of operations\<close>

text \<open>The operations that \<^verbatim>\<open>useTasks\<close> returns, as data, and their execution one after another.\<close>

datatype Operation =
    AddTask TaskFormData
  | EditTask TaskFormData
  | DeleteTask string
  | ToggleTaskComplete string
  | StartEditingTask Task
  | CancelEditing
  | ClearAllTasks
  | SetSearchQuery string

fun perform :: "clock \<Rightarrow> randomness \<Rightarrow> Operation \<Rightarrow> Store \<Rightarrow> Store" where
  "perform clk rnd (AddTask taskData) s = addTask clk rnd taskData s"
| "perform clk rnd (EditTask taskData) s = editTask clk taskData s"
| "perform clk rnd (DeleteTask taskId) s = deleteTask taskId s"
| "perform clk rnd (ToggleTaskComplete taskId) s = toggleTaskComplete clk taskId s"
| "perform clk rnd (StartEditingTask task) s = startEditingTask task s"
| "perform clk rnd CancelEditing s = cancelEditing s"
| "perform clk rnd ClearAllTasks s = clearAllTasks s"
| "perform clk rnd (SetSearchQuery query) s = setSearchQuery query s"

fun performAll :: "clock \<Rightarrow> randomness \<Rightarrow> Operation list \<Rightarrow> Store \<Rightarrow> Store" where
  "performAll clk rnd [] s = s"
| "performAll clk rnd (op # ops) s = performAll clk rnd ops (perform clk rnd op s)"

text \<open>A sequence of \<^verbatim>\<open>addTask\<close> calls, one for each form submission of the list.\<close>

fun addTasks :: "clock \<Rightarrow> randomness \<Rightarrow> TaskFormData list \<Rightarrow> Store \<Rightarrow> Store" where
  "addTasks clk rnd [] s = s"
| "addTasks clk rnd (taskData # rest) s = addTasks clk rnd rest (addTask clk rnd taskData s)"

text \<open>
  The invariant behind the ordering of the two time stamps: every task was created no
  later than it was last updated, and no later than the next clock reading.
\<close>

definition timely :: "clock \<Rightarrow> Store \<Rightarrow> bool" where
  "timely clk s \<longleftrightarrow>
     (\<forall>task \<in> set (tasks s). createdAt task \<le> updatedAt task \<and> createdAt task \<le> clk (reads s))"

section \<open>The durable store adapter (hooks/useLocalStorage.ts)\<close>

text \<open>
  Modelled from the spec: the source of \<^verbatim>\<open>useLocalStorage\<close>, the Durable Store Adapter, is
  not among the files of the repository at hand; only its callers and its tests are. The
  definitions of this section follow the specification's description of the adapter
  and of the storage layout: a synchronous key-value store of texts, JSON as the wire
  format, one key \<^verbatim>\<open>"tasks"\<close> holding a JSON array of task objects whose three time stamps
  are stored in a form that converts to and from a point in time.
\<close>

subsection \<open>JSON values and their text\<close>

text \<open>
  Modelled from the spec: JSON as the wire format of the adapter. Values are the JSON
  values with integer numbers; \<open>stringify\<close> writes a value without white space,
  strings in double quotes with the quote, the backslash and the control characters
  escaped.
\<close>

datatype json =
    JNull
  | JBool bool
  | JNumber int
  | JString string
  | JArray "json list"
  | JObject "(string \<times> json) list"

definition digit10 :: "nat \<Rightarrow> char" where
  "digit10 d = ''0123456789'' ! d"

fun digits10 :: "nat \<Rightarrow> string" where
  "digits10 n = (if n < 10 then [digit10 n] else digits10 (n div 10) @ [digit10 (n mod 10)])"

declare digits10.simps [simp del]

definition showInt :: "int \<Rightarrow> string" where
  "showInt i = (if i < 0 then CHR ''-'' # digits10 (nat (- i)) else digits10 (nat i))"

definition hexDigit :: "nat \<Rightarrow> char" where
  "hexDigit d = ''0123456789abcdef'' ! d"

definition escapeChar :: "char \<Rightarrow> string" where
  "escapeChar c =
     (if c = CHR 0x22 then [CHR 0x5C, CHR 0x22]
      else if c = CHR 0x5C then [CHR 0x5C, CHR 0x5C]
      else if (of_char c :: nat) < 32
        then [CHR 0x5C, CHR ''u'', CHR ''0'', CHR ''0'',
              hexDigit ((of_char c :: nat) div 16), hexDigit ((of_char c :: nat) mod 16)]
      else [c])"

definition quoted :: "string \<Rightarrow> string" where
  "quoted s = CHR 0x22 # concat (map escapeChar s) @ [CHR 0x22]"

fun commaSep :: "string list \<Rightarrow> string" where
  "commaSep [] = []"
| "commaSep [x] = x"
| "commaSep (x # y # rest) = x @ CHR '','' # commaSep (y # rest)"

fun stringify :: "json \<Rightarrow> string" where
  "stringify JNull = ''null''"
| "stringify (JBool b) = (if b then ''true'' else ''false'')"
| "stringify (JNumber i) = showInt i"
| "stringify (JString s) = quoted s"
| "stringify (JArray xs) = CHR ''['' # commaSep (map stringify xs) @ '']''"
| "stringify (JObject kvs) =
     CHR ''{'' # commaSep (map (\<lambda>(k, v). quoted k @ CHR '':'' # stringify v) kvs) @ ''}''"

text \<open>
  Modelled from the spec: reading JSON text back. \<open>parseValue\<close> reads one value from the
  front of a text and returns it with the rest of the text; \<open>parse\<close> accepts a text that
  is one value and nothing else, and is \<open>None\<close> on a text that is not valid.
\<close>

definition isDigit :: "char \<Rightarrow> bool" where
  "isDigit c = (48 \<le> (of_char c :: nat) \<and> (of_char c :: nat) \<le> 57)"

definition digitVal :: "char \<Rightarrow> nat" where
  "digitVal c = of_char c - 48"

fun parseDigits :: "nat \<Rightarrow> string \<Rightarrow> nat \<times> string" where
  "parseDigits acc [] = (acc, [])"
| "parseDigits acc (c # cs) =
     (if isDigit c then parseDigits (acc * 10 + digitVal c) cs else (acc, c # cs))"

definition hexVal :: "char \<Rightarrow> nat option" where
  "hexVal c =
     (let n = (of_char c :: nat)
      in if 48 \<le> n \<and> n \<le> 57 then Some (n - 48)
         else if 97 \<le> n \<and> n \<le> 102 then Some (n - 87)
         else if 65 \<le> n \<and> n \<le> 70 then Some (n - 55)
         else None)"

fun parseChars :: "string \<Rightarrow> (string \<times> string) option" where
  "parseChars [] = None"
| "parseChars (c # cs) =
     (if c = CHR 0x22 then Some ([], cs)
      else if c = CHR 0x5C then
        (case cs of
           [] \<Rightarrow> None
         | e # r \<Rightarrow>
             if e = CHR 0x22 \<or> e = CHR 0x5C \<or> e = CHR ''/'' then map_option (apfst ((#) e)) (parseChars r)
             else if e = CHR ''b'' then map_option (apfst ((#) (CHR 0x08))) (parseChars r)
             else if e = CHR ''f'' then map_option (apfst ((#) (CHR 0x0C))) (parseChars r)
             else if e = CHR ''n'' then map_option (apfst ((#) (CHR 0x0A))) (parseChars r)
             else if e = CHR ''r'' then map_option (apfst ((#) (CHR 0x0D))) (parseChars r)
             else if e = CHR ''t'' then map_option (apfst ((#) (CHR 0x09))) (parseChars r)
             else if e = CHR ''u'' then
               (case r of
                  h3 # h2 # h1 # h0 # r' \<Rightarrow>
                    (case (hexVal h3, hexVal h2, hexVal h1, hexVal h0) of
                       (Some a, Some b, Some c', Some d) \<Rightarrow>
                         if a = 0 \<and> b = 0
                         then map_option (apfst ((#) (char_of (16 * c' + d)))) (parseChars r')
                         else None
                     | _ \<Rightarrow> None)
                | _ \<Rightarrow> None)
             else None)
      else if (of_char c :: nat) < 32 then None
      else map_option (apfst ((#) c)) (parseChars cs))"

fun parseValue :: "string \<Rightarrow> (json \<times> string) option"
  and parseElements :: "string \<Rightarrow> (json list \<times> string) option"
  and parseMembers :: "string \<Rightarrow> ((string \<times> json) list \<times> string) option"
where
  "parseValue [] = None"
| "parseValue (c # cs) =
     (if c = CHR ''n'' then (if take 3 cs = ''ull'' then Some (JNull, drop 3 cs) else None)
      else if c = CHR ''t'' then (if take 3 cs = ''rue'' then Some (JBool True, drop 3 cs) else None)
      else if c = CHR ''f'' then (if take 4 cs = ''alse'' then Some (JBool False, drop 4 cs) else None)
      else if c = CHR 0x22 then map_option (apfst JString) (parseChars cs)
      else if c = CHR ''-'' then
        (case cs of
           [] \<Rightarrow> None
         | d # _ \<Rightarrow> if isDigit d then Some (apfst (\<lambda>n. JNumber (- int n)) (parseDigits 0 cs)) else None)
      else if isDigit c then Some (apfst (\<lambda>n. JNumber (int n)) (parseDigits 0 (c # cs)))
      else if c = CHR ''['' then
        (case cs of
           [] \<Rightarrow> None
         | d # r \<Rightarrow> if d = CHR '']'' then Some (JArray [], r)
                    else map_option (apfst JArray) (parseElements cs))
      else if c = CHR ''{'' then
        (case cs of
           [] \<Rightarrow> None
         | d # r \<Rightarrow> if d = CHR ''}'' then Some (JObject [], r)
                    else map_option (apfst JObject) (parseMembers cs))
      else None)"
| "parseElements input =
     (case parseValue input of
        None \<Rightarrow> None
      | Some (v, rest) \<Rightarrow>
          (case rest of
             [] \<Rightarrow> None
           | d # r \<Rightarrow>
               if d = CHR '']'' then Some ([v], r)
               else if d = CHR '','' \<and> length r < length input
                 then map_option (apfst ((#) v)) (parseElements r)
               else None))"
| "parseMembers input =
     (case input of
        [] \<Rightarrow> None
      | q # afterQuote \<Rightarrow>
          if q \<noteq> CHR 0x22 then None
          else (case parseChars afterQuote of
                  None \<Rightarrow> None
                | Some (k, afterKey) \<Rightarrow>
                    (case afterKey of
                       [] \<Rightarrow> None
                     | colon # afterColon \<Rightarrow>
                         if colon \<noteq> CHR '':'' \<or> \<not> length afterColon < length input then None
                         else (case parseValue afterColon of
                                 None \<Rightarrow> None
                               | Some (v, rest) \<Rightarrow>
                                   (case rest of
                                      [] \<Rightarrow> None
                                    | d # r \<Rightarrow>
                                        if d = CHR ''}'' then Some ([(k, v)], r)
                                        else if d = CHR '','' \<and> length r < length input
                                          then map_option (apfst ((#) (k, v))) (parseMembers r)
                                        else None)))))"

definition parse :: "string \<Rightarrow> json option" where
  "parse text = (case parseValue text of Some (v, []) \<Rightarrow> Some v | _ \<Rightarrow> None)"

declare parseElements.simps [simp del] parseMembers.simps [simp del]

text \<open>A text that does not continue a number: it is empty or starts with a character that is no digit.\<close>

definition noDigitStart :: "string \<Rightarrow> bool" where
  "noDigitStart rest = (case rest of [] \<Rightarrow> True | c # _ \<Rightarrow> \<not> isDigit c)"

subsection \<open>Tasks as JSON objects\<close>

text \<open>
  Modelled from the spec: the storage layout, a JSON array of task objects. A task is
  written as an object with its fields in the order in which \<^verbatim>\<open>addTask\<close> builds them; an
  absent \<^verbatim>\<open>description\<close> or \<^verbatim>\<open>dueDate\<close> is left out, as JSON has no \<^verbatim>\<open>undefined\<close>. The
  specification leaves the textual form of a time stamp open; here it is the number
  of milliseconds since the epoch, which converts to and from the point in time without
  loss. Reading accepts the fields in any order and rejects an object in which a
  required field is missing or of the wrong kind.
\<close>

definition priorityName :: "Priority \<Rightarrow> string" where
  "priorityName p = (case p of High \<Rightarrow> ''high'' | Medium \<Rightarrow> ''medium'' | Low \<Rightarrow> ''low'')"

definition priorityOfName :: "string \<Rightarrow> Priority option" where
  "priorityOfName s =
     (if s = ''high'' then Some High
      else if s = ''medium'' then Some Medium
      else if s = ''low'' then Some Low
      else None)"

definition taskToJson :: "Task \<Rightarrow> json" where
  "taskToJson task =
     JObject
       ([(''id'', JString (id_task task)), (''title'', JString (title task))]
        @ (case description task of None \<Rightarrow> [] | Some d \<Rightarrow> [(''description'', JString d)])
        @ [(''priority'', JString (priorityName (priority task))),
           (''completed'', JBool (completed task))]
        @ (case dueDate task of None \<Rightarrow> [] | Some due \<Rightarrow> [(''dueDate'', JNumber due)])
        @ [(''createdAt'', JNumber (createdAt task)), (''updatedAt'', JNumber (updatedAt task))])"

definition getString :: "(string \<times> json) list \<Rightarrow> string \<Rightarrow> string option" where
  "getString kvs k = (case map_of kvs k of Some (JString s) \<Rightarrow> Some s | _ \<Rightarrow> None)"

definition getBool :: "(string \<times> json) list \<Rightarrow> string \<Rightarrow> bool option" where
  "getBool kvs k = (case map_of kvs k of Some (JBool b) \<Rightarrow> Some b | _ \<Rightarrow> None)"

definition getTime :: "(string \<times> json) list \<Rightarrow> string \<Rightarrow> Date option" where
  "getTime kvs k = (case map_of kvs k of Some (JNumber i) \<Rightarrow> Some i | _ \<Rightarrow> None)"

definition taskFromJson :: "json \<Rightarrow> Task option" where
  "taskFromJson j =
     (case j of
        JObject kvs \<Rightarrow>
          Option.bind (getString kvs ''id'') (\<lambda>i.
          Option.bind (getString kvs ''title'') (\<lambda>t.
          Option.bind (Option.bind (getString kvs ''priority'') priorityOfName) (\<lambda>p.
          Option.bind (getBool kvs ''completed'') (\<lambda>c.
          Option.bind (getTime kvs ''createdAt'') (\<lambda>ca.
          Option.bind (getTime kvs ''updatedAt'') (\<lambda>ua.
            Some \<lparr>title = t, description = getString kvs ''description'', priority = p,
                  dueDate = getTime kvs ''dueDate'', id_task = i, completed = c,
                  createdAt = ca, updatedAt = ua\<rparr>))))))
      | _ \<Rightarrow> None)"

definition tasksToJson :: "Task list \<Rightarrow> json" where
  "tasksToJson ts = JArray (map taskToJson ts)"

definition tasksFromJson :: "json \<Rightarrow> Task list option" where
  "tasksFromJson j = (case j of JArray xs \<Rightarrow> those (map taskFromJson xs) | _ \<Rightarrow> None)"

subsection \<open>The key-value store and the adapter\<close>

text \<open>
  Modelled from the spec: the synchronous key-value persistence API that the adapter
  wraps. Its read primitive fails (throws) when the store is not readable, and its
  write primitive fails when the text exceeds what the store can still take (quota
  exceeded).
\<close>

record Storage =
  items :: "string \<Rightarrow> string option"
  readable :: bool
  capacity :: nat

datatype storageError = SecurityError | QuotaExceededError

definition getItem :: "Storage \<Rightarrow> string \<Rightarrow> storageError + string option" where
  "getItem st key = (if readable st then Inr (items st key) else Inl SecurityError)"

definition setItem :: "Storage \<Rightarrow> string \<Rightarrow> string \<Rightarrow> storageError + Storage" where
  "setItem st key text =
     (if length text \<le> capacity st then Inr (st\<lparr>items := (items st)(key \<mapsto> text)\<rparr>)
      else Inl QuotaExceededError)"

text \<open>
  Modelled from the spec: the two operations of the adapter. \<open>readValue\<close> fetches the raw
  text of the key and returns the caller's default when the key is absent, when the
  read primitive fails, or when the text does not parse to a value of the expected shape;
  it never raises. \<open>writeValue\<close> serializes the value and attempts to store it; a failure
  of the write primitive is swallowed, and the store stays as it was.
\<close>

definition readValue :: "(json \<Rightarrow> 'a option) \<Rightarrow> Storage \<Rightarrow> string \<Rightarrow> 'a \<Rightarrow> 'a" where
  "readValue decode st key defaultValue =
     (case getItem st key of
        Inl _ \<Rightarrow> defaultValue
      | Inr None \<Rightarrow> defaultValue
      | Inr (Some text) \<Rightarrow>
          (case Option.bind (parse text) decode of
             None \<Rightarrow> defaultValue
           | Some v \<Rightarrow> v))"

definition writeValue :: "('a \<Rightarrow> json) \<Rightarrow> Storage \<Rightarrow> string \<Rightarrow> 'a \<Rightarrow> Storage" where
  "writeValue encode st key v =
     (case setItem st key (stringify (encode v)) of
        Inl _ \<Rightarrow> st
      | Inr st' \<Rightarrow> st')"

text \<open>
  Modelled from the spec: \<^verbatim>\<open>useLocalStorage<Task[]>('tasks', [])\<close> as \<^verbatim>\<open>useTasks\<close> calls it.
  Every mutating operation writes the whole task list under the key \<^verbatim>\<open>"tasks"\<close>; a fresh
  store instance starts from what it reads under that key, with the empty list as
  default, nothing being edited and the empty search query.
\<close>

definition persistTasks :: "Storage \<Rightarrow> Task list \<Rightarrow> Storage" where
  "persistTasks st ts = writeValue tasksToJson st ''tasks'' ts"

definition loadStore :: "Storage \<Rightarrow> Store" where
  "loadStore st =
     \<lparr>tasks = readValue tasksFromJson st ''tasks'' [], editingTask = None, searchQuery = [],
      reads = 0, draws = 0\<rparr>"

section \<open>Example data\<close>

text \<open>
  Concrete inputs on which the theorems below are exercised: a form submission without
  description and due date, one with both, a clock that advances by one millisecond at
  every reading, a clock whose readings all fall into the same millisecond, and two
  random sources, one that never repeats and one that always produces the same text.
\<close>

definition milk :: TaskFormData where
  "milk = \<lparr>title = ''Buy milk'', description = None, priority = Low, dueDate = None\<rparr>"

definition report :: TaskFormData where
  "report = \<lparr>title = ''Write Report'', description = Some ''Quarterly numbers'',
              priority = High, dueDate = Some 500\<rparr>"

definition tickingClock :: clock where
  "tickingClock k = 1000 + int k"

definition frozenClock :: clock where
  "frozenClock k = 1000"

definition freshRandom :: randomness where
  "freshRandom r = CHR ''r'' # digits36 r"

definition stuckRandom :: randomness where
  "stuckRandom r = ''4fzzzxjylrx''"

text \<open>A task as it may come out of local storage, with an id of the caller's choice.\<close>

definition storedTask :: "string \<Rightarrow> Task" where
  "storedTask i = \<lparr>title = ''Test Task'', description = Some ''This is a test task'',
                    priority = Medium, dueDate = Some 900, id_task = i, completed = False,
                    createdAt = 100, updatedAt = 100\<rparr>"

definition storeOf :: "Task list \<Rightarrow> Store" where
  "storeOf ts = \<lparr>tasks = ts, editingTask = None, searchQuery = [], reads = 0, draws = 0\<rparr>"

text \<open>A readable store with nothing in it and room for 5000 characters, and a full one.\<close>

definition roomyStorage :: Storage where
  "roomyStorage = \<lparr>items = (\<lambda>key. None), readable = True, capacity = 5000\<rparr>"

definition fullStorage :: Storage where
  "fullStorage = \<lparr>items = (\<lambda>key. None), readable = True, capacity = 0\<rparr>"

section \<open>The two maps over the task list\<close>

text \<open>
  Both maps keep the length of the list, read the clock once for each task with the
  given id, and leave every other task as it is. The task at position \<open>j\<close> receives
  the reading whose number is \<open>k\<close> plus the number of tasks with that id before it.
\<close>

lemma editMap_length: "length (fst (editMap clk eid taskData ts k)) = length ts"
  by (induction ts arbitrary: k) (simp_all add: case_prod_beta)

lemma editMap_reads:
  "snd (editMap clk eid taskData ts k) = k + length (filter (\<lambda>task. id_task task = eid) ts)"
  by (induction ts arbitrary: k) (simp_all add: case_prod_beta)

lemma editMap_nth:
  "j < length ts \<Longrightarrow>
   fst (editMap clk eid taskData ts k) ! j =
     (if id_task (ts ! j) = eid
      then (ts ! j)\<lparr>title := title taskData, description := description taskData,
                    priority := priority taskData, dueDate := dueDate taskData,
                    updatedAt := clk (k + length (filter (\<lambda>task. id_task task = eid) (take j ts)))\<rparr>
      else ts ! j)"
proof (induction ts arbitrary: k j)
  case Nil
  then show ?case by simp
next
  case (Cons task rest)
  show ?case
  proof (cases j)
    case 0
    then show ?thesis by (simp add: case_prod_beta)
  next
    case (Suc i)
    with Cons.prems have i: "i < length rest" by simp
    show ?thesis
      using Cons.IH [OF i, of "Suc k"] Cons.IH [OF i, of k] Suc
      by (simp add: case_prod_beta)
  qed
qed

lemma editMap_no_match:
  "eid \<notin> id_task ` set ts \<Longrightarrow> editMap clk eid taskData ts k = (ts, k)"
  by (induction ts) auto

lemma editTask_editing:
  "editingTask s = Some e \<Longrightarrow>
   editTask clk taskData s =
     s\<lparr>tasks := fst (editMap clk (id_task e) taskData (tasks s) (reads s)),
       reads := snd (editMap clk (id_task e) taskData (tasks s) (reads s)),
       editingTask := None\<rparr>"
  by (simp add: editTask_def case_prod_beta)

lemma toggleMap_length: "length (fst (toggleMap clk taskId ts k)) = length ts"
  by (induction ts arbitrary: k) (simp_all add: case_prod_beta)

lemma toggleMap_reads:
  "snd (toggleMap clk taskId ts k) = k + length (filter (\<lambda>task. id_task task = taskId) ts)"
  by (induction ts arbitrary: k) (simp_all add: case_prod_beta)

lemma toggleMap_nth:
  "j < length ts \<Longrightarrow>
   fst (toggleMap clk taskId ts k) ! j =
     (if id_task (ts ! j) = taskId
      then (ts ! j)\<lparr>completed := \<not> completed (ts ! j),
                    updatedAt := clk (k + length (filter (\<lambda>task. id_task task = taskId) (take j ts)))\<rparr>
      else ts ! j)"
proof (induction ts arbitrary: k j)
  case Nil
  then show ?case by simp
next
  case (Cons task rest)
  show ?case
  proof (cases j)
    case 0
    then show ?thesis by (simp add: case_prod_beta)
  next
    case (Suc i)
    with Cons.prems have i: "i < length rest" by simp
    show ?thesis
      using Cons.IH [OF i, of "Suc k"] Cons.IH [OF i, of k] Suc
      by (simp add: case_prod_beta)
  qed
qed

lemma toggleMap_no_match:
  "taskId \<notin> id_task ` set ts \<Longrightarrow> toggleMap clk taskId ts k = (ts, k)"
  by (induction ts) auto

lemma toggleMap_ids: "map id_task (fst (toggleMap clk taskId ts k)) = map id_task ts"
  by (induction ts arbitrary: k) (simp_all add: case_prod_beta)

lemma count_ids:
  "length (filter (\<lambda>task. id_task task = i) (take j ts)) =
   length (filter (\<lambda>x. x = i) (take j (map id_task ts)))"
  by (simp add: take_map length_filter_map comp_def)

lemma toggleMap_count:
  "length (filter (\<lambda>task. id_task task = i) (take j (fst (toggleMap clk taskId ts k)))) =
   length (filter (\<lambda>task. id_task task = i) (take j ts))"
  by (simp add: count_ids toggleMap_ids)

lemma toggleTaskComplete_eq:
  "toggleTaskComplete clk taskId s =
     s\<lparr>tasks := fst (toggleMap clk taskId (tasks s) (reads s)),
       reads := reads s + length (filter (\<lambda>task. id_task task = taskId) (tasks s))\<rparr>"
  by (simp add: toggleTaskComplete_def case_prod_beta toggleMap_reads)

section \<open>Searching\<close>

lemma matchesQuery_throws:
  "matchesQuery query task = Inl e \<longleftrightarrow>
     description task = None \<and> \<not> includes_str (toLowerCase (title task)) query"
  by (cases e) (simp add: matchesQuery_def split: option.splits)

text \<open>
  The evaluation of the filter throws exactly when some task has no description and a
  title that does not contain the query.
\<close>

lemma filterTasks_throws_iff:
  "filterTasks query ts = Inl TypeError \<longleftrightarrow>
     (\<exists>task \<in> set ts. description task = None \<and> \<not> includes_str (toLowerCase (title task)) query)"
proof (induction ts)
  case Nil
  then show ?case by simp
next
  case (Cons task rest)
  show ?case
  proof (cases "matchesQuery query task")
    case (Inl e)
    then show ?thesis
      using matchesQuery_throws [of query task e] by (cases e) simp
  next
    case (Inr keep)
    then have "\<not> (description task = None \<and> \<not> includes_str (toLowerCase (title task)) query)"
      using matchesQuery_throws [of query task TypeError] by simp
    then show ?thesis
      using Inr Cons.IH by (cases "filterTasks query rest") auto
  qed
qed

text \<open>When every task has a description, the filter is the one the specification describes.\<close>

lemma filterTasks_described:
  "\<forall>task \<in> set ts. description task \<noteq> None \<Longrightarrow>
   filterTasks query ts =
     Inr (filter (\<lambda>task. includes_str (toLowerCase (title task)) query \<or>
                        includes_str (toLowerCase (the (description task))) query) ts)"
  by (induction ts) (auto simp: matchesQuery_def)

text \<open>
  Claim C1 says that \<open>filteredTasks\<close> never throws when the trimmed query is not empty,
  and that a task without description is kept exactly when its title contains the
  query. The source calls \<^verbatim>\<open>toLowerCase\<close> on the description without a guard: with one
  task entitled "Buy milk" that has no description and the query "eggs", the title does
  not match, the description is consulted, and the evaluation ends in a \<^verbatim>\<open>TypeError\<close>
  where the claim has the empty list.
\<close>

theorem filteredTasks_throws_without_description:
  "filteredTasks (setSearchQuery ''eggs'' (addTask tickingClock freshRandom milk emptyStore))
     = Inl TypeError"
  by code_simp

section \<open>Editing\<close>

text \<open>
  Claim C8. When \<open>editingTask\<close> is not set, \<open>editTask\<close> is a no-op whatever the form data:
  the store that comes back is the store that went in, so \<open>tasks\<close>, \<open>editingTask\<close> and
  \<open>searchQuery\<close> are unchanged (and the clock is not read).
\<close>

theorem editTask_not_editing_noop:
  assumes "editingTask s = None"
  shows "editTask clk taskData s = s"
  using assms by (simp add: editTask_def)

text \<open>Claim C8 on a store with one task and nothing being edited.\<close>

theorem editTask_not_editing_noop_witness:
  "editingTask (storeOf [storedTask ''1'']) = None \<and>
   editTask tickingClock report (storeOf [storedTask ''1'']) = storeOf [storedTask ''1'']"
  using editTask_not_editing_noop [of "storeOf [storedTask ''1'']" tickingClock report]
  by (simp add: storeOf_def)

text \<open>
  Claim C10. When \<open>editingTask\<close> holds a task whose id does not occur in \<open>tasks\<close>,
  \<open>editTask\<close> leaves \<open>tasks\<close> as it is and still clears \<open>editingTask\<close>, whatever the form
  data: the clearing does not depend on a task having been edited.
\<close>

theorem editTask_stale_clears_editing:
  assumes "editingTask s = Some e" and "id_task e \<notin> id_task ` set (tasks s)"
  shows "tasks (editTask clk taskData s) = tasks s \<and> editingTask (editTask clk taskData s) = None"
  using assms by (simp add: editTask_def editMap_no_match)

text \<open>Claim C10 on a store that holds task 1 while task 2 is selected for editing.\<close>

theorem editTask_stale_clears_editing_witness:
  "editingTask (startEditingTask (storedTask ''2'') (storeOf [storedTask ''1''])) = Some (storedTask ''2'') \<and>
   id_task (storedTask ''2'') \<notin> id_task ` set (tasks (startEditingTask (storedTask ''2'') (storeOf [storedTask ''1'']))) \<and>
   tasks (editTask tickingClock report (startEditingTask (storedTask ''2'') (storeOf [storedTask ''1''])))
     = [storedTask ''1''] \<and>
   editingTask (editTask tickingClock report (startEditingTask (storedTask ''2'') (storeOf [storedTask ''1''])))
     = None"
proof -
  let ?s = "startEditingTask (storedTask ''2'') (storeOf [storedTask ''1''])"
  have e: "editingTask ?s = Some (storedTask ''2'')"
    by (simp add: startEditingTask_def)
  have n: "id_task (storedTask ''2'') \<notin> id_task ` set (tasks ?s)"
    by (simp add: startEditingTask_def storeOf_def storedTask_def)
  have t: "tasks ?s = [storedTask ''1'']"
    by (simp add: startEditingTask_def storeOf_def)
  show ?thesis
    using editTask_stale_clears_editing [OF e n, of tickingClock report] e n t by simp
qed

text \<open>
  Claim C4 says that an edit strictly increases \<open>updatedAt\<close>. The edit stores the clock
  reading, whatever the old value: a task created and edited within the same
  millisecond keeps its \<open>updatedAt\<close>.
\<close>

theorem editTask_updatedAt_counterexample:
  "\<not> updatedAt (tasks (addTask frozenClock freshRandom milk emptyStore) ! 0)
     < updatedAt (tasks (editTask frozenClock report
          (startEditingTask (tasks (addTask frozenClock freshRandom milk emptyStore) ! 0)
             (addTask frozenClock freshRandom milk emptyStore))) ! 0)"
  by (simp add: editTask_def addTask_def emptyStore_def newTask_def startEditingTask_def frozenClock_def)

text \<open>
  Claim C4, amended. After \<open>startEditingTask t\<close>, \<open>editTask taskData\<close> keeps the length and
  the order of \<open>tasks\<close>; a task whose id differs from that of \<open>t\<close> is unchanged; a task
  with the id of \<open>t\<close> keeps its \<open>id\<close>, \<open>completed\<close> and \<open>createdAt\<close>, takes \<open>title\<close>,
  \<open>description\<close>, \<open>priority\<close> and \<open>dueDate\<close> from the form data, and its \<open>updatedAt\<close>
  becomes the clock reading taken for it, which is later than the old value exactly when
  the clock has moved past the old value; \<open>editingTask\<close> is cleared and \<open>searchQuery\<close>
  is unchanged.
\<close>

theorem editTask_after_startEditing:
  "length (tasks (editTask clk taskData (startEditingTask t s))) = length (tasks s) \<and>
   (\<forall>j < length (tasks s).
      (id_task (tasks s ! j) \<noteq> id_task t \<longrightarrow>
         tasks (editTask clk taskData (startEditingTask t s)) ! j = tasks s ! j) \<and>
      (id_task (tasks s ! j) = id_task t \<longrightarrow>
         tasks (editTask clk taskData (startEditingTask t s)) ! j =
           (tasks s ! j)\<lparr>title := title taskData, description := description taskData,
                          priority := priority taskData, dueDate := dueDate taskData,
                          updatedAt := clk (reads s +
                             length (filter (\<lambda>task. id_task task = id_task t) (take j (tasks s))))\<rparr> \<and>
         id_task (tasks (editTask clk taskData (startEditingTask t s)) ! j) = id_task (tasks s ! j) \<and>
         completed (tasks (editTask clk taskData (startEditingTask t s)) ! j) = completed (tasks s ! j) \<and>
         createdAt (tasks (editTask clk taskData (startEditingTask t s)) ! j) = createdAt (tasks s ! j) \<and>
         (updatedAt (tasks s ! j) < updatedAt (tasks (editTask clk taskData (startEditingTask t s)) ! j)
            \<longleftrightarrow> updatedAt (tasks s ! j) < clk (reads s +
                   length (filter (\<lambda>task. id_task task = id_task t) (take j (tasks s))))))) \<and>
   editingTask (editTask clk taskData (startEditingTask t s)) = None \<and>
   searchQuery (editTask clk taskData (startEditingTask t s)) = searchQuery s"
proof -
  have e: "editingTask (startEditingTask t s) = Some t"
    by (simp add: startEditingTask_def)
  have f: "tasks (startEditingTask t s) = tasks s" "reads (startEditingTask t s) = reads s"
    "searchQuery (startEditingTask t s) = searchQuery s"
    by (simp_all add: startEditingTask_def)
  show ?thesis
    by (simp add: editTask_editing [OF e] f editMap_length editMap_nth)
qed

text \<open>
  The amended claim C4 on a store with the tasks 1 and 2, task 1 being edited at clock
  reading 1000.
\<close>

theorem editTask_after_startEditing_witness:
  "tasks (editTask tickingClock report
      (startEditingTask (storedTask ''1'') (storeOf [storedTask ''1'', storedTask ''2'']))) ! 0
    = \<lparr>title = ''Write Report'', description = Some ''Quarterly numbers'', priority = High,
       dueDate = Some 500, id_task = ''1'', completed = False, createdAt = 100, updatedAt = 1000\<rparr> \<and>
   tasks (editTask tickingClock report
      (startEditingTask (storedTask ''1'') (storeOf [storedTask ''1'', storedTask ''2'']))) ! 1
    = storedTask ''2'' \<and>
   editingTask (editTask tickingClock report
      (startEditingTask (storedTask ''1'') (storeOf [storedTask ''1'', storedTask ''2'']))) = None"
proof -
  let ?s = "storeOf [storedTask ''1'', storedTask ''2'']"
  let ?s' = "editTask tickingClock report (startEditingTask (storedTask ''1'') ?s)"
  note t = editTask_after_startEditing [of tickingClock report "storedTask ''1''" ?s]
  have j0: "(0::nat) < length (tasks ?s)" "id_task (tasks ?s ! 0) = id_task (storedTask ''1'')"
    by (simp_all add: storeOf_def)
  have j1: "(1::nat) < length (tasks ?s)" "id_task (tasks ?s ! 1) \<noteq> id_task (storedTask ''1'')"
    by (simp_all add: storeOf_def storedTask_def)
  have a: "tasks ?s' ! 0 = (tasks ?s ! 0)\<lparr>title := title report, description := description report,
        priority := priority report, dueDate := dueDate report,
        updatedAt := tickingClock (reads ?s +
           length (filter (\<lambda>task. id_task task = id_task (storedTask ''1'')) (take 0 (tasks ?s))))\<rparr>"
    using t j0 by blast
  have b: "tasks ?s' ! 1 = tasks ?s ! 1"
    using t j1 by blast
  have e: "editingTask ?s' = None"
    using t by blast
  have a': "tasks ?s' ! 0 = \<lparr>title = ''Write Report'', description = Some ''Quarterly numbers'',
       priority = High, dueDate = Some 500, id_task = ''1'', completed = False,
       createdAt = 100, updatedAt = 1000\<rparr>"
    unfolding a by (simp add: storeOf_def storedTask_def report_def tickingClock_def)
  have b': "tasks ?s' ! 1 = storedTask ''2''"
    unfolding b by (simp add: storeOf_def)
  show ?thesis
    using a' b' e by blast
qed

section \<open>Deleting\<close>

text \<open>
  Claim C7. \<open>deleteTask taskId\<close> keeps, in order, exactly the tasks whose id is not
  \<open>taskId\<close>; it leaves \<open>tasks\<close> as it is when no task has that id; a second call right
  after the first changes nothing; and when \<open>editingTask\<close> holds a task with that id it
  is cleared.
\<close>

theorem deleteTask_removes_idempotent:
  "tasks (deleteTask taskId s) = filter (\<lambda>task. id_task task \<noteq> taskId) (tasks s) \<and>
   (taskId \<notin> id_task ` set (tasks s) \<longrightarrow> tasks (deleteTask taskId s) = tasks s) \<and>
   deleteTask taskId (deleteTask taskId s) = deleteTask taskId s \<and>
   (\<forall>e. editingTask s = Some e \<and> id_task e = taskId \<longrightarrow> editingTask (deleteTask taskId s) = None)"
proof -
  have absent: "taskId \<notin> id_task ` set (tasks s) \<Longrightarrow>
      filter (\<lambda>task. id_task task \<noteq> taskId) (tasks s) = tasks s"
    by (induction "tasks s") (auto simp: filter_id_conv)
  have twice: "deleteTask taskId (deleteTask taskId s) = deleteTask taskId s"
    by (cases "editingTask s") (simp_all add: deleteTask_def)
  show ?thesis
    using absent twice by (auto simp: deleteTask_def)
qed

text \<open>
  Claim C7 on a store with the tasks 1 and 2: deleting task 1 while it is being edited,
  and deleting the absent task 3.
\<close>

theorem deleteTask_removes_idempotent_witness:
  "tasks (deleteTask ''1'' (startEditingTask (storedTask ''1'') (storeOf [storedTask ''1'', storedTask ''2''])))
     = [storedTask ''2''] \<and>
   editingTask (deleteTask ''1'' (startEditingTask (storedTask ''1'') (storeOf [storedTask ''1'', storedTask ''2''])))
     = None \<and>
   ''3'' \<notin> id_task ` set (tasks (storeOf [storedTask ''1'', storedTask ''2''])) \<and>
   tasks (deleteTask ''3'' (storeOf [storedTask ''1'', storedTask ''2'']))
     = [storedTask ''1'', storedTask ''2'']"
proof -
  let ?s = "storeOf [storedTask ''1'', storedTask ''2'']"
  let ?e = "startEditingTask (storedTask ''1'') ?s"
  have a: "''3'' \<notin> id_task ` set (tasks ?s)"
    by (simp add: storeOf_def storedTask_def)
  have e: "editingTask ?e = Some (storedTask ''1'') \<and> id_task (storedTask ''1'') = ''1''"
    by (simp add: startEditingTask_def storedTask_def)
  have f: "filter (\<lambda>task. id_task task \<noteq> ''1'') (tasks ?e) = [storedTask ''2'']"
    by (simp add: startEditingTask_def storeOf_def storedTask_def)
  have t: "tasks ?s = [storedTask ''1'', storedTask ''2'']"
    by (simp add: storeOf_def)
  show ?thesis
    using deleteTask_removes_idempotent [of "''1''" ?e]
      deleteTask_removes_idempotent [of "''3''" ?s] a e f t
    by simp
qed

section \<open>Toggling\<close>

text \<open>
  Claim C5 says that \<open>updatedAt\<close> moves forward on both of two successive calls of
  \<open>toggleTaskComplete\<close>. Each call stores the clock reading: when both calls fall into
  the same millisecond, the second one leaves \<open>updatedAt\<close> where the first one put it.
\<close>

theorem toggleTaskComplete_advance_counterexample:
  "\<not> updatedAt (tasks (toggleTaskComplete frozenClock ''1'' (storeOf [storedTask ''1''])) ! 0)
     < updatedAt (tasks (toggleTaskComplete frozenClock ''1''
          (toggleTaskComplete frozenClock ''1'' (storeOf [storedTask ''1'']))) ! 0)"
  by (simp add: toggleTaskComplete_def storeOf_def storedTask_def frozenClock_def)

text \<open>
  Claim C5, amended. For a task with the given id, \<open>toggleTaskComplete\<close> negates
  \<open>completed\<close>, so that two calls in a row restore it; each call sets \<open>updatedAt\<close> to the
  clock reading taken for the task in that call, so that from the first call to the
  second \<open>updatedAt\<close> does not go back when the clock is non-decreasing, and moves
  forward when the clock's readings strictly increase. With an id that no task has,
  the call returns the store unchanged.
\<close>

theorem toggleTaskComplete_twice:
  "length (tasks (toggleTaskComplete clk taskId (toggleTaskComplete clk taskId s))) = length (tasks s) \<and>
   (\<forall>j < length (tasks s). id_task (tasks s ! j) = taskId \<longrightarrow>
      completed (tasks (toggleTaskComplete clk taskId s) ! j) = (\<not> completed (tasks s ! j)) \<and>
      completed (tasks (toggleTaskComplete clk taskId (toggleTaskComplete clk taskId s)) ! j)
        = completed (tasks s ! j) \<and>
      updatedAt (tasks (toggleTaskComplete clk taskId s) ! j)
        = clk (reads s + length (filter (\<lambda>task. id_task task = taskId) (take j (tasks s)))) \<and>
      updatedAt (tasks (toggleTaskComplete clk taskId (toggleTaskComplete clk taskId s)) ! j)
        = clk (reads s + length (filter (\<lambda>task. id_task task = taskId) (tasks s))
                 + length (filter (\<lambda>task. id_task task = taskId) (take j (tasks s)))) \<and>
      (mono clk \<longrightarrow>
         updatedAt (tasks (toggleTaskComplete clk taskId s) ! j)
           \<le> updatedAt (tasks (toggleTaskComplete clk taskId (toggleTaskComplete clk taskId s)) ! j)) \<and>
      (strict_mono clk \<longrightarrow>
         updatedAt (tasks (toggleTaskComplete clk taskId s) ! j)
           < updatedAt (tasks (toggleTaskComplete clk taskId (toggleTaskComplete clk taskId s)) ! j))) \<and>
   (taskId \<notin> id_task ` set (tasks s) \<longrightarrow> toggleTaskComplete clk taskId s = s)"
proof -
  let ?s1 = "toggleTaskComplete clk taskId s"
  let ?s2 = "toggleTaskComplete clk taskId ?s1"
  let ?m = "\<lambda>j. length (filter (\<lambda>task. id_task task = taskId) (take j (tasks s)))"
  let ?M = "length (filter (\<lambda>task. id_task task = taskId) (tasks s))"
  have t1: "tasks ?s1 = fst (toggleMap clk taskId (tasks s) (reads s))"
    and r1: "reads ?s1 = reads s + ?M"
    by (simp_all add: toggleTaskComplete_eq)
  have t2: "tasks ?s2 = fst (toggleMap clk taskId (tasks ?s1) (reads ?s1))"
    by (simp add: toggleTaskComplete_eq [of clk taskId ?s1])
  have len1: "length (tasks ?s1) = length (tasks s)"
    by (simp add: t1 toggleMap_length)
  have len2: "length (tasks ?s2) = length (tasks s)"
    by (simp add: t2 toggleMap_length len1)
  have step: "completed (tasks ?s1 ! j) = (\<not> completed (tasks s ! j)) \<and>
      completed (tasks ?s2 ! j) = completed (tasks s ! j) \<and>
      updatedAt (tasks ?s1 ! j) = clk (reads s + ?m j) \<and>
      updatedAt (tasks ?s2 ! j) = clk (reads s + ?M + ?m j) \<and>
      (mono clk \<longrightarrow> updatedAt (tasks ?s1 ! j) \<le> updatedAt (tasks ?s2 ! j)) \<and>
      (strict_mono clk \<longrightarrow> updatedAt (tasks ?s1 ! j) < updatedAt (tasks ?s2 ! j))"
    if j: "j < length (tasks s)" and m: "id_task (tasks s ! j) = taskId" for j
  proof -
    have a: "tasks ?s1 ! j = (tasks s ! j)\<lparr>completed := \<not> completed (tasks s ! j),
        updatedAt := clk (reads s + ?m j)\<rparr>"
      using j m by (simp add: t1 toggleMap_nth)
    have j1: "j < length (tasks ?s1)" using j len1 by simp
    have m1: "id_task (tasks ?s1 ! j) = taskId" using a m by simp
    have c: "length (filter (\<lambda>task. id_task task = taskId) (take j (tasks ?s1))) = ?m j"
      by (simp add: t1 toggleMap_count)
    have b: "tasks ?s2 ! j =
        (tasks ?s1 ! j)\<lparr>completed := \<not> completed (tasks ?s1 ! j),
          updatedAt := clk (reads ?s1 + length (filter (\<lambda>task. id_task task = taskId) (take j (tasks ?s1))))\<rparr>"
      using toggleMap_nth [OF j1, of clk taskId "reads ?s1"] m1 unfolding t2 by simp
    have u1: "updatedAt (tasks ?s1 ! j) = clk (reads s + ?m j)"
      by (simp add: a)
    have u2: "updatedAt (tasks ?s2 ! j) = clk (reads s + ?M + ?m j)"
      by (simp add: b c r1)
    have c1: "completed (tasks ?s1 ! j) = (\<not> completed (tasks s ! j))"
      by (simp add: a)
    have c2: "completed (tasks ?s2 ! j) = completed (tasks s ! j)"
      by (simp add: b c1)
    have "tasks s ! j \<in> set (filter (\<lambda>task. id_task task = taskId) (tasks s))"
      using j m by simp
    then have pos: "0 < ?M"
      by (rule length_pos_if_in_set)
    have le: "mono clk \<Longrightarrow> clk (reads s + ?m j) \<le> clk (reads s + ?M + ?m j)"
      by (simp add: mono_def)
    have less: "strict_mono clk \<Longrightarrow> clk (reads s + ?m j) < clk (reads s + ?M + ?m j)"
      using pos by (simp add: strict_mono_def)
    show ?thesis
      using c1 c2 u1 u2 le less by simp
  qed
  have absent: "toggleTaskComplete clk taskId s = s" if "taskId \<notin> id_task ` set (tasks s)"
    using that by (simp add: toggleTaskComplete_def toggleMap_no_match)
  show ?thesis
    using len2 step absent by blast
qed

text \<open>
  The amended claim C5 on a store with the tasks 1 and 2: toggling task 2 twice under a
  clock that ticks at every reading, and toggling the absent task 3.
\<close>

theorem toggleTaskComplete_twice_witness:
  "completed (tasks (toggleTaskComplete tickingClock ''2'' (storeOf [storedTask ''1'', storedTask ''2''])) ! 1) \<and>
   \<not> completed (tasks (toggleTaskComplete tickingClock ''2''
       (toggleTaskComplete tickingClock ''2'' (storeOf [storedTask ''1'', storedTask ''2'']))) ! 1) \<and>
   updatedAt (tasks (toggleTaskComplete tickingClock ''2'' (storeOf [storedTask ''1'', storedTask ''2''])) ! 1) = 1000 \<and>
   updatedAt (tasks (toggleTaskComplete tickingClock ''2''
       (toggleTaskComplete tickingClock ''2'' (storeOf [storedTask ''1'', storedTask ''2'']))) ! 1) = 1001 \<and>
   toggleTaskComplete tickingClock ''3'' (storeOf [storedTask ''1'', storedTask ''2''])
     = storeOf [storedTask ''1'', storedTask ''2'']"
proof -
  let ?s = "storeOf [storedTask ''1'', storedTask ''2'']"
  have j: "(1::nat) < length (tasks ?s)" "id_task (tasks ?s ! 1) = ''2''"
    by (simp_all add: storeOf_def storedTask_def)
  have n: "''3'' \<notin> id_task ` set (tasks ?s)"
    by (simp add: storeOf_def storedTask_def)
  have c: "length (filter (\<lambda>task. id_task task = ''2'') (take 1 (tasks ?s))) = 0"
    "length (filter (\<lambda>task. id_task task = ''2'') (tasks ?s)) = 1"
    by (simp_all add: storeOf_def storedTask_def)
  have a: "completed (tasks (toggleTaskComplete tickingClock ''2'' ?s) ! 1) = (\<not> completed (tasks ?s ! 1)) \<and>
      completed (tasks (toggleTaskComplete tickingClock ''2'' (toggleTaskComplete tickingClock ''2'' ?s)) ! 1)
        = completed (tasks ?s ! 1) \<and>
      updatedAt (tasks (toggleTaskComplete tickingClock ''2'' ?s) ! 1)
        = tickingClock (reads ?s + length (filter (\<lambda>task. id_task task = ''2'') (take 1 (tasks ?s)))) \<and>
      updatedAt (tasks (toggleTaskComplete tickingClock ''2'' (toggleTaskComplete tickingClock ''2'' ?s)) ! 1)
        = tickingClock (reads ?s + length (filter (\<lambda>task. id_task task = ''2'') (tasks ?s))
                 + length (filter (\<lambda>task. id_task task = ''2'') (take 1 (tasks ?s))))"
    using toggleTaskComplete_twice [of tickingClock "''2''" ?s] j by blast
  have z: "toggleTaskComplete tickingClock ''3'' ?s = ?s"
    using toggleTaskComplete_twice [of tickingClock "''3''" ?s] n by blast
  show ?thesis
    using a z unfolding c by (simp add: storeOf_def tickingClock_def storedTask_def)
qed

section \<open>Statistics\<close>

lemma overdueFilter_at:
  "(\<forall>j. k \<le> j \<and> j < k + length ts \<longrightarrow> clk j = now) \<Longrightarrow>
   fst (overdueFilter clk ts k) =
     filter (\<lambda>task. \<not> completed task \<and> (case dueDate task of None \<Rightarrow> False | Some due \<Rightarrow> due < now)) ts"
proof (induction ts arbitrary: k)
  case Nil
  then show ?case by simp
next
  case (Cons task rest)
  have here: "clk k = now" using Cons.prems by simp
  have a: "fst (overdueFilter clk rest k) =
     filter (\<lambda>task. \<not> completed task \<and> (case dueDate task of None \<Rightarrow> False | Some due \<Rightarrow> due < now)) rest"
    using Cons.prems by (intro Cons.IH) simp
  have b: "fst (overdueFilter clk rest (Suc k)) =
     filter (\<lambda>task. \<not> completed task \<and> (case dueDate task of None \<Rightarrow> False | Some due \<Rightarrow> due < now)) rest"
    using Cons.prems by (intro Cons.IH) simp
  show ?case
    using a b here by (simp add: case_prod_beta split: option.splits)
qed

text \<open>
  Claim C6. Evaluated at the time \<open>now\<close>, that is, with the clock reading \<open>now\<close> for as
  long as the evaluation lasts (it takes at most one reading for each task),
  \<open>taskStats\<close> is the record of the length of \<open>tasks\<close>, the number of completed tasks,
  their difference, and the number of tasks that are not completed and have a due date
  strictly before \<open>now\<close>. The number of completed tasks and the number of pending tasks
  add up to the total.
\<close>

theorem taskStats_counts:
  assumes "\<forall>j. reads s \<le> j \<and> j < reads s + length (tasks s) \<longrightarrow> clk j = now"
  shows "fst (taskStats clk s) =
     \<lparr>total = length (tasks s),
      completed_stats = length (filter completed (tasks s)),
      pending = length (tasks s) - length (filter completed (tasks s)),
      overdue = length (filter (\<lambda>task. \<not> completed task \<and>
                   (case dueDate task of None \<Rightarrow> False | Some due \<Rightarrow> due < now)) (tasks s))\<rparr> \<and>
    completed_stats (fst (taskStats clk s)) + pending (fst (taskStats clk s)) = total (fst (taskStats clk s))"
  using overdueFilter_at [OF assms]
  by (simp add: taskStats_def case_prod_beta Let_def)

text \<open>
  Claim C6 at the time 1000 on four tasks due at 900: one open, one completed, one without
  due date, one due at 1000 sharp.
\<close>

theorem taskStats_counts_witness:
  "fst (taskStats frozenClock (storeOf [storedTask ''1'', (storedTask ''2'')\<lparr>completed := True\<rparr>,
        (storedTask ''3'')\<lparr>dueDate := None\<rparr>, (storedTask ''4'')\<lparr>dueDate := Some 1000\<rparr>]))
    = \<lparr>total = 4, completed_stats = 1, pending = 3, overdue = 1\<rparr>"
proof -
  let ?s = "storeOf [storedTask ''1'', (storedTask ''2'')\<lparr>completed := True\<rparr>,
        (storedTask ''3'')\<lparr>dueDate := None\<rparr>, (storedTask ''4'')\<lparr>dueDate := Some 1000\<rparr>]"
  have h: "\<forall>j. reads ?s \<le> j \<and> j < reads ?s + length (tasks ?s) \<longrightarrow> frozenClock j = 1000"
    by (simp add: frozenClock_def)
  show ?thesis
    using taskStats_counts [OF h] by (simp add: storeOf_def storedTask_def)
qed

section \<open>Adding\<close>

lemma addTasks_tasks:
  "tasks (addTasks clk rnd ds s) =
     tasks s @ map (\<lambda>i. newTask clk rnd (reads s + 3 * i) (draws s + i) (ds ! i)) [0..<length ds]"
proof (induction ds arbitrary: s)
  case Nil
  then show ?case by simp
next
  case (Cons d rest)
  have "tasks (addTasks clk rnd (d # rest) s) = tasks (addTasks clk rnd rest (addTask clk rnd d s))"
    by simp
  also have "\<dots> = (tasks s @ [newTask clk rnd (reads s) (draws s) d]) @
      map (\<lambda>i. newTask clk rnd (reads s + 3 + 3 * i) (draws s + 1 + i) (rest ! i)) [0..<length rest]"
    by (simp add: Cons.IH addTask_def)
  also have "\<dots> = tasks s @
      map (\<lambda>i. newTask clk rnd (reads s + 3 * i) (draws s + i) ((d # rest) ! i)) [0..<length (d # rest)]"
    by (simp add: map_upt_Suc add.assoc del: upt_Suc)
  finally show ?case .
qed

text \<open>
  The base-36 numeral determines the number, so two generated ids whose random parts
  have the same length are equal only if they come from the same clock reading and
  the same random text.
\<close>

lemma value36_digit36: "d < 36 \<Longrightarrow> value36 (digit36 d) = d"
proof -
  assume "d < 36"
  then have "d \<in> set [0..<36]" by simp
  then show ?thesis
    by (simp add: upt_rec digit36_def value36_def) (elim disjE; simp)
qed

lemma digits36_value: "foldl (\<lambda>a c. a * 36 + value36 c) 0 (digits36 n) = n"
proof (induction n rule: digits36.induct)
  case (1 n)
  show ?case
  proof (cases "n < 36")
    case True
    then show ?thesis by (subst digits36.simps) (simp add: value36_digit36)
  next
    case False
    then have "n mod 36 < 36" by simp
    with False 1 show ?thesis by (subst digits36.simps) (simp add: value36_digit36)
  qed
qed

lemma digits36_inj: "digits36 m = digits36 n \<Longrightarrow> m = n"
  by (metis digits36_value)

lemma digit36_not_minus: "d < 36 \<Longrightarrow> digit36 d \<noteq> CHR ''-''"
proof -
  assume "d < 36"
  then have "d \<in> set [0..<36]" by simp
  then show ?thesis
    by (simp add: upt_rec digit36_def) (elim disjE; simp)
qed

lemma digits36_hd: "\<exists>c cs. digits36 n = c # cs \<and> c \<noteq> CHR ''-''"
proof (induction n rule: digits36.induct)
  case (1 n)
  show ?case
  proof (cases "n < 36")
    case True
    then show ?thesis by (subst digits36.simps) (simp add: digit36_not_minus)
  next
    case False
    with 1 obtain c cs where "digits36 (n div 36) = c # cs" "c \<noteq> CHR ''-''" by blast
    with False show ?thesis by (subst digits36.simps) simp
  qed
qed

lemma toString36_inj: "toString36 i = toString36 j \<Longrightarrow> i = j"
proof -
  assume e: "toString36 i = toString36 j"
  obtain c cs where a: "digits36 (nat i) = c # cs" "c \<noteq> CHR ''-''"
    using digits36_hd by blast
  obtain d ds where b: "digits36 (nat j) = d # ds" "d \<noteq> CHR ''-''"
    using digits36_hd by blast
  consider "i < 0" "j < 0" | "\<not> i < 0" "\<not> j < 0" | "i < 0" "\<not> j < 0" | "\<not> i < 0" "j < 0"
    by blast
  then show ?thesis
  proof cases
    case 1
    with e have "nat (- i) = nat (- j)" by (simp add: toString36_def digits36_inj)
    with 1 show ?thesis by simp
  next
    case 2
    with e have "nat i = nat j" by (simp add: toString36_def digits36_inj)
    with 2 show ?thesis by simp
  next
    case 3
    with e b show ?thesis by (simp add: toString36_def)
  next
    case 4
    with e a show ?thesis by (simp add: toString36_def)
  qed
qed

lemma generateId_eq_iff:
  assumes "length (rnd r) = length (rnd r')"
  shows "generateId clk rnd k r = generateId clk rnd k' r' \<longleftrightarrow> clk k = clk k' \<and> rnd r = rnd r'"
  using assms toString36_inj [of "clk k" "clk k'"] by (auto simp: generateId_def)

text \<open>
  Claim C3 says that after any sequence of \<open>addTask\<close> calls all ids are pairwise
  distinct. An id is the clock reading in base 36 followed by the random text, and
  nothing compares it with the ids in use: two calls that read the same millisecond and
  draw the same random text produce the same id.
\<close>

theorem addTasks_ids_counterexample:
  "\<not> distinct (map id_task (tasks (addTasks frozenClock stuckRandom [milk, report] emptyStore)))"
  by (simp add: addTask_def emptyStore_def newTask_def generateId_def frozenClock_def stuckRandom_def)

text \<open>
  Claim C3, amended. A sequence of \<open>addTask\<close> calls appends one task for each call, in
  call order, and leaves the tasks already there as they are, so that the length grows
  by the number of calls. The task of call \<open>i\<close> has \<open>completed = false\<close>; \<open>title\<close>,
  \<open>description\<close>, \<open>priority\<close> and \<open>dueDate\<close> of the form data of that call; as id the
  first clock reading of the call in base 36 followed by the random text drawn in the
  call; and as \<open>createdAt\<close> and \<open>updatedAt\<close> the second and the third clock reading of
  the call (the same point in time when the clock does not tick between them). The ids
  of the result are pairwise distinct exactly when the ids at the start and the ids so
  generated are.
\<close>

theorem addTasks_appends:
  "length (tasks (addTasks clk rnd ds s)) = length (tasks s) + length ds \<and>
   take (length (tasks s)) (tasks (addTasks clk rnd ds s)) = tasks s \<and>
   (\<forall>i < length ds.
      tasks (addTasks clk rnd ds s) ! (length (tasks s) + i) =
        \<lparr>title = title (ds ! i), description = description (ds ! i),
         priority = priority (ds ! i), dueDate = dueDate (ds ! i),
         id_task = toString36 (clk (reads s + 3 * i)) @ rnd (draws s + i),
         completed = False,
         createdAt = clk (reads s + 3 * i + 1),
         updatedAt = clk (reads s + 3 * i + 2)\<rparr>) \<and>
   (distinct (map id_task (tasks (addTasks clk rnd ds s))) \<longleftrightarrow>
      distinct (map id_task (tasks s) @
                map (\<lambda>i. toString36 (clk (reads s + 3 * i)) @ rnd (draws s + i)) [0..<length ds]))"
proof -
  have ids: "map id_task (tasks (addTasks clk rnd ds s)) =
      map id_task (tasks s) @
      map (\<lambda>i. toString36 (clk (reads s + 3 * i)) @ rnd (draws s + i)) [0..<length ds]"
    by (simp add: addTasks_tasks newTask_def generateId_def comp_def)
  show ?thesis
    unfolding ids by (simp add: addTasks_tasks newTask_def generateId_def)
qed

text \<open>
  The amended claim C3 on two calls from the empty store, with a clock that ticks at
  every reading and a random source that does not repeat.
\<close>

theorem addTasks_appends_witness:
  "tasks (addTasks tickingClock freshRandom [milk, report] emptyStore) ! 1 =
     \<lparr>title = ''Write Report'', description = Some ''Quarterly numbers'', priority = High,
      dueDate = Some 500, id_task = ''rvr1'', completed = False,
      createdAt = 1004, updatedAt = 1005\<rparr> \<and>
   distinct (map id_task (tasks (addTasks tickingClock freshRandom [milk, report] emptyStore)))"
proof -
  note t = addTasks_appends [of tickingClock freshRandom "[milk, report]" emptyStore]
  have i: "(1::nat) < length [milk, report]" by simp
  have a: "tasks (addTasks tickingClock freshRandom [milk, report] emptyStore) ! (length (tasks emptyStore) + 1) =
        \<lparr>title = title ([milk, report] ! 1), description = description ([milk, report] ! 1),
         priority = priority ([milk, report] ! 1), dueDate = dueDate ([milk, report] ! 1),
         id_task = toString36 (tickingClock (reads emptyStore + 3 * 1)) @ freshRandom (draws emptyStore + 1),
         completed = False,
         createdAt = tickingClock (reads emptyStore + 3 * 1 + 1),
         updatedAt = tickingClock (reads emptyStore + 3 * 1 + 2)\<rparr>"
    using t i by blast
  have d: "distinct (map id_task (tasks emptyStore) @
                map (\<lambda>i. toString36 (tickingClock (reads emptyStore + 3 * i)) @ freshRandom (draws emptyStore + i))
                  [0..<length [milk, report]])"
    by (simp add: emptyStore_def tickingClock_def toString36_def digits36.simps digit36_def
        freshRandom_def upt_rec)
  have b: "distinct (map id_task (tasks (addTasks tickingClock freshRandom [milk, report] emptyStore)))"
    using t d by blast
  show ?thesis
    using a b
    by (simp add: emptyStore_def tickingClock_def toString36_def digits36.simps digit36_def
        freshRandom_def milk_def report_def)
qed

section \<open>The order of the two time stamps\<close>

lemma timely_addTask:
  assumes "mono clk" "timely clk s"
  shows "timely clk (addTask clk rnd taskData s)"
proof -
  have a: "clk (reads s) \<le> clk (reads s + 3)" "clk (reads s + 1) \<le> clk (reads s + 2)"
    "clk (reads s + 1) \<le> clk (reads s + 3)"
    using assms(1) by (simp_all add: mono_def)
  show ?thesis
    using assms(2) a by (fastforce simp: timely_def addTask_def newTask_def)
qed

lemma timely_editMap:
  assumes "mono clk" "timely clk s"
  shows "timely clk (s\<lparr>tasks := fst (editMap clk eid taskData (tasks s) (reads s)),
                       reads := snd (editMap clk eid taskData (tasks s) (reads s))\<rparr>)"
proof -
  let ?ts = "fst (editMap clk eid taskData (tasks s) (reads s))"
  let ?k = "reads s + length (filter (\<lambda>task. id_task task = eid) (tasks s))"
  have "createdAt task \<le> updatedAt task \<and> createdAt task \<le> clk ?k" if "task \<in> set ?ts" for task
  proof -
    from that obtain j where j: "j < length (tasks s)" and t: "task = ?ts ! j"
      by (auto simp: in_set_conv_nth editMap_length)
    have old: "createdAt (tasks s ! j) \<le> updatedAt (tasks s ! j)" "createdAt (tasks s ! j) \<le> clk (reads s)"
      using assms(2) j by (simp_all add: timely_def)
    have m: "clk (reads s) \<le> clk ?k"
      "clk (reads s) \<le> clk (reads s + length (filter (\<lambda>task. id_task task = eid) (take j (tasks s))))"
      using assms(1) by (simp_all add: mono_def)
    show ?thesis
      using old m by (simp add: t editMap_nth [OF j])
  qed
  then show ?thesis
    by (simp add: timely_def editMap_reads)
qed

lemma timely_editTask:
  assumes "mono clk" "timely clk s"
  shows "timely clk (editTask clk taskData s)"
proof (cases "editingTask s")
  case None
  then show ?thesis using assms(2) by (simp add: editTask_def)
next
  case (Some e)
  have "timely clk (editTask clk taskData s) =
      timely clk (s\<lparr>tasks := fst (editMap clk (id_task e) taskData (tasks s) (reads s)),
                     reads := snd (editMap clk (id_task e) taskData (tasks s) (reads s))\<rparr>)"
    by (simp add: editTask_editing [OF Some] timely_def)
  then show ?thesis using timely_editMap [OF assms] by simp
qed

lemma timely_toggleTaskComplete:
  assumes "mono clk" "timely clk s"
  shows "timely clk (toggleTaskComplete clk taskId s)"
proof -
  let ?ts = "fst (toggleMap clk taskId (tasks s) (reads s))"
  let ?k = "reads s + length (filter (\<lambda>task. id_task task = taskId) (tasks s))"
  have "createdAt task \<le> updatedAt task \<and> createdAt task \<le> clk ?k" if "task \<in> set ?ts" for task
  proof -
    from that obtain j where j: "j < length (tasks s)" and t: "task = ?ts ! j"
      by (auto simp: in_set_conv_nth toggleMap_length)
    have old: "createdAt (tasks s ! j) \<le> updatedAt (tasks s ! j)" "createdAt (tasks s ! j) \<le> clk (reads s)"
      using assms(2) j by (simp_all add: timely_def)
    have m: "clk (reads s) \<le> clk ?k"
      "clk (reads s) \<le> clk (reads s + length (filter (\<lambda>task. id_task task = taskId) (take j (tasks s))))"
      using assms(1) by (simp_all add: mono_def)
    show ?thesis
      using old m by (simp add: t toggleMap_nth [OF j])
  qed
  then show ?thesis
    by (simp add: timely_def toggleTaskComplete_eq)
qed

lemma timely_perform:
  assumes "mono clk" "timely clk s"
  shows "timely clk (perform clk rnd op s)"
proof (cases op)
  case (AddTask d)
  then show ?thesis using timely_addTask [OF assms] by simp
next
  case (EditTask d)
  then show ?thesis using timely_editTask [OF assms] by simp
next
  case (DeleteTask i)
  then show ?thesis using assms(2) by (simp add: timely_def deleteTask_def)
next
  case (ToggleTaskComplete i)
  then show ?thesis using timely_toggleTaskComplete [OF assms] by simp
next
  case (StartEditingTask t)
  then show ?thesis using assms(2) by (simp add: timely_def startEditingTask_def)
next
  case CancelEditing
  then show ?thesis using assms(2) by (simp add: timely_def cancelEditing_def)
next
  case ClearAllTasks
  then show ?thesis by (simp add: timely_def clearAllTasks_def)
next
  case (SetSearchQuery q)
  then show ?thesis using assms(2) by (simp add: timely_def setSearchQuery_def)
qed

lemma timely_performAll:
  "mono clk \<Longrightarrow> timely clk s \<Longrightarrow> timely clk (performAll clk rnd ops s)"
  by (induction ops arbitrary: s) (simp_all add: timely_perform)

text \<open>
  Claim C9. With a clock whose readings never decrease, every task of every store
  reached from the empty store by a sequence of the eight operations has
  \<open>createdAt \<le> updatedAt\<close>. Clock readings that other code takes between two
  operations only leave out readings, and what remains is again a clock whose readings
  never decrease.
\<close>

theorem reachable_createdAt_le_updatedAt:
  assumes "mono clk"
  shows "\<forall>task \<in> set (tasks (performAll clk rnd ops emptyStore)). createdAt task \<le> updatedAt task"
proof -
  have "timely clk emptyStore"
    by (simp add: timely_def emptyStore_def)
  then have "timely clk (performAll clk rnd ops emptyStore)"
    using assms by (rule timely_performAll [rotated])
  then show ?thesis
    by (simp add: timely_def)
qed

text \<open>
  Claim C9 on a run that adds two tasks, completes and edits the first and deletes the
  second, under a clock that ticks at every reading.
\<close>

theorem reachable_createdAt_le_updatedAt_witness:
  "mono tickingClock \<and>
   tasks (performAll tickingClock freshRandom
      [AddTask milk, AddTask report, ToggleTaskComplete ''rsr0'',
       StartEditingTask (storedTask ''rsr0''), EditTask report, DeleteTask ''rvr1''] emptyStore)
     = [\<lparr>title = ''Write Report'', description = Some ''Quarterly numbers'', priority = High,
         dueDate = Some 500, id_task = ''rsr0'', completed = True,
         createdAt = 1001, updatedAt = 1007\<rparr>] \<and>
   createdAt (tasks (performAll tickingClock freshRandom
      [AddTask milk, AddTask report, ToggleTaskComplete ''rsr0'',
       StartEditingTask (storedTask ''rsr0''), EditTask report, DeleteTask ''rvr1''] emptyStore) ! 0)
   \<le> updatedAt (tasks (performAll tickingClock freshRandom
      [AddTask milk, AddTask report, ToggleTaskComplete ''rsr0'',
       StartEditingTask (storedTask ''rsr0''), EditTask report, DeleteTask ''rvr1''] emptyStore) ! 0)"
proof -
  let ?ops = "[AddTask milk, AddTask report, ToggleTaskComplete ''rsr0'',
       StartEditingTask (storedTask ''rsr0''), EditTask report, DeleteTask ''rvr1'']"
  have m: "mono tickingClock"
    by (simp add: mono_def tickingClock_def)
  have e: "tasks (performAll tickingClock freshRandom ?ops emptyStore)
     = [\<lparr>title = ''Write Report'', description = Some ''Quarterly numbers'', priority = High,
         dueDate = Some 500, id_task = ''rsr0'', completed = True,
         createdAt = 1001, updatedAt = 1007\<rparr>]"
    by (simp add: addTask_def emptyStore_def newTask_def generateId_def tickingClock_def
        freshRandom_def milk_def report_def storedTask_def startEditingTask_def toString36_def
        digits36.simps digit36_def toggleTaskComplete_def editTask_def deleteTask_def)
  then have "tasks (performAll tickingClock freshRandom ?ops emptyStore) ! 0
      \<in> set (tasks (performAll tickingClock freshRandom ?ops emptyStore))"
    by simp
  then show ?thesis
    using reachable_createdAt_le_updatedAt [OF m, of freshRandom ?ops] m e by blast
qed

section \<open>Round trip through the durable store\<close>

subsection \<open>Numbers\<close>

lemma digit10_props: "d < 10 \<Longrightarrow> isDigit (digit10 d) \<and> digitVal (digit10 d) = d"
proof -
  assume "d < 10"
  then have "d \<in> set [0..<10]" by simp
  then show ?thesis
    by (simp add: upt_rec digit10_def isDigit_def digitVal_def) (elim disjE; simp)
qed

lemma digits10_all: "\<forall>c \<in> set (digits10 n). isDigit c"
proof (induction n rule: digits10.induct)
  case (1 n)
  show ?case
  proof (cases "n < 10")
    case True
    then show ?thesis by (subst digits10.simps) (simp add: digit10_props)
  next
    case False
    then have "n mod 10 < 10" by simp
    with False 1 show ?thesis by (subst digits10.simps) (simp add: digit10_props)
  qed
qed

lemma digits10_value: "foldl (\<lambda>a c. a * 10 + digitVal c) 0 (digits10 n) = n"
proof (induction n rule: digits10.induct)
  case (1 n)
  show ?case
  proof (cases "n < 10")
    case True
    then show ?thesis by (subst digits10.simps) (simp add: digit10_props)
  next
    case False
    then have "n mod 10 < 10" by simp
    with False 1 show ?thesis by (subst digits10.simps) (simp add: digit10_props)
  qed
qed

lemma digits10_Cons: "\<exists>c cs. digits10 n = c # cs \<and> isDigit c"
proof -
  have "digits10 n \<noteq> []"
    by (subst digits10.simps) simp
  then obtain c cs where e: "digits10 n = c # cs"
    by (cases "digits10 n") auto
  then have "isDigit c" using digits10_all [of n] by simp
  with e show ?thesis by blast
qed

lemma parseDigits_append:
  "\<forall>c \<in> set ds. isDigit c \<Longrightarrow>
   parseDigits acc (ds @ rest) = parseDigits (foldl (\<lambda>a c. a * 10 + digitVal c) acc ds) rest"
  by (induction ds arbitrary: acc) simp_all

lemma parseDigits_stop: "noDigitStart rest \<Longrightarrow> parseDigits acc rest = (acc, rest)"
  by (cases rest) (simp_all add: noDigitStart_def)

lemma parseDigits_digits10:
  "noDigitStart rest \<Longrightarrow> parseDigits 0 (digits10 n @ rest) = (n, rest)"
  by (simp add: parseDigits_append digits10_all digits10_value parseDigits_stop)

lemma isDigit_not_special:
  "isDigit c \<Longrightarrow> c \<noteq> CHR ''n'' \<and> c \<noteq> CHR ''t'' \<and> c \<noteq> CHR ''f'' \<and> c \<noteq> CHR 0x22 \<and> c \<noteq> CHR ''-''"
  by (auto simp: isDigit_def)

lemma noDigitStart_simps [simp]:
  "noDigitStart []" "noDigitStart (CHR '','' # r)" "noDigitStart (CHR '']'' # r)"
  "noDigitStart (CHR ''}'' # r)"
  by (simp_all add: noDigitStart_def isDigit_def)

lemma parseValue_number:
  assumes "noDigitStart rest"
  shows "parseValue (showInt i @ rest) = Some (JNumber i, rest)"
proof (cases "i < 0")
  case True
  obtain c cs where d: "digits10 (nat (- i)) = c # cs" "isDigit c"
    using digits10_Cons by blast
  have "parseDigits 0 (digits10 (nat (- i)) @ rest) = (nat (- i), rest)"
    using assms by (rule parseDigits_digits10)
  then have p: "parseDigits 0 (c # cs @ rest) = (nat (- i), rest)"
    by (simp add: d)
  have "parseValue (CHR ''-'' # c # cs @ rest) = Some (JNumber i, rest)"
    using True d(2) by (simp add: p del: parseDigits.simps)
  then show ?thesis
    using True d by (simp add: showInt_def)
next
  case False
  obtain c cs where d: "digits10 (nat i) = c # cs" "isDigit c"
    using digits10_Cons by blast
  have "parseDigits 0 (digits10 (nat i) @ rest) = (nat i, rest)"
    using assms by (rule parseDigits_digits10)
  then have p: "parseDigits 0 (c # cs @ rest) = (nat i, rest)"
    by (simp add: d)
  have "parseValue (c # cs @ rest) = Some (JNumber i, rest)"
    using False d(2) isDigit_not_special [OF d(2)] by (simp add: p del: parseDigits.simps)
  then show ?thesis
    using False d by (simp add: showInt_def)
qed

subsection \<open>Strings\<close>

lemma hexVal_hexDigit: "d < 16 \<Longrightarrow> hexVal (hexDigit d) = Some d"
proof -
  assume "d < 16"
  then have "d \<in> set [0..<16]" by simp
  then show ?thesis
    by (simp add: upt_rec hexDigit_def hexVal_def) (elim disjE; simp)
qed

lemma parseChars_escape:
  "parseChars (escapeChar c @ rest) = map_option (apfst ((#) c)) (parseChars rest)"
proof -
  consider (quote) "c = CHR 0x22" | (backslash) "c = CHR 0x5C"
    | (control) "c \<noteq> CHR 0x22" "c \<noteq> CHR 0x5C" "(of_char c :: nat) < 32"
    | (plain) "c \<noteq> CHR 0x22" "c \<noteq> CHR 0x5C" "\<not> (of_char c :: nat) < 32"
    by blast
  then show ?thesis
  proof cases
    case quote
    then show ?thesis by (simp add: escapeChar_def)
  next
    case backslash
    then show ?thesis by (simp add: escapeChar_def)
  next
    case control
    let ?n = "of_char c :: nat"
    have h: "hexVal (hexDigit (?n div 16)) = Some (?n div 16)"
      "hexVal (hexDigit (?n mod 16)) = Some (?n mod 16)"
      using control(3) by (simp_all add: hexVal_hexDigit)
    have z: "hexVal CHR ''0'' = Some 0"
      by (simp add: hexVal_def)
    have c: "char_of (16 * (?n div 16) + ?n mod 16) = c"
      by simp
    show ?thesis
      using control by (simp add: escapeChar_def h z c)
  next
    case plain
    then show ?thesis by (simp add: escapeChar_def)
  qed
qed

lemma parseChars_quoted:
  "parseChars (concat (map escapeChar s) @ CHR 0x22 # rest) = Some (s, rest)"
  by (induction s) (simp_all add: parseChars_escape)

subsection \<open>Values\<close>

lemma parseElements_last:
  "parseValue (sv @ CHR '']'' # rest) = Some (v, CHR '']'' # rest) \<Longrightarrow>
   parseElements (sv @ CHR '']'' # rest) = Some ([v], rest)"
  by (subst parseElements.simps) simp

lemma parseElements_next:
  "parseValue (sv @ CHR '','' # tail) = Some (v, CHR '','' # tail) \<Longrightarrow>
   parseElements tail = Some (vs, rest) \<Longrightarrow>
   parseElements (sv @ CHR '','' # tail) = Some (v # vs, rest)"
  by (subst parseElements.simps) simp

lemma parseMembers_last:
  "parseValue (sv @ CHR ''}'' # rest) = Some (v, CHR ''}'' # rest) \<Longrightarrow>
   parseMembers (quoted k @ CHR '':'' # sv @ CHR ''}'' # rest) = Some ([(k, v)], rest)"
  by (subst parseMembers.simps) (simp add: quoted_def parseChars_quoted)

lemma parseMembers_next:
  "parseValue (sv @ CHR '','' # tail) = Some (v, CHR '','' # tail) \<Longrightarrow>
   parseMembers tail = Some (kvs, rest) \<Longrightarrow>
   parseMembers (quoted k @ CHR '':'' # sv @ CHR '','' # tail) = Some ((k, v) # kvs, rest)"
  by (subst parseMembers.simps) (simp add: quoted_def parseChars_quoted)

lemma parseElements_commaSep:
  assumes "xs \<noteq> []"
    and "\<And>x rest. x \<in> set xs \<Longrightarrow> noDigitStart rest \<Longrightarrow> parseValue (stringify x @ rest) = Some (x, rest)"
  shows "parseElements (commaSep (map stringify xs) @ CHR '']'' # rest) = Some (xs, rest)"
  using assms
proof (induction xs)
  case Nil
  then show ?case by simp
next
  case (Cons x ys)
  show ?case
  proof (cases ys)
    case Nil
    have "parseValue (stringify x @ CHR '']'' # rest) = Some (x, CHR '']'' # rest)"
      by (rule Cons.prems(2)) simp_all
    then show ?thesis
      using Nil parseElements_last by simp
  next
    case (Cons y zs)
    let ?tail = "commaSep (map stringify ys) @ CHR '']'' # rest"
    have v: "parseValue (stringify x @ CHR '','' # ?tail) = Some (x, CHR '','' # ?tail)"
      by (rule Cons.prems(2)) simp_all
    have t: "parseElements ?tail = Some (ys, rest)"
      using Cons Cons.prems(2) by (intro Cons.IH) simp_all
    have "parseElements (stringify x @ CHR '','' # ?tail) = Some (x # ys, rest)"
      using v t by (rule parseElements_next)
    then show ?thesis
      using Cons by simp
  qed
qed

lemma parseMembers_commaSep:
  assumes "kvs \<noteq> []"
    and "\<And>k v rest. (k, v) \<in> set kvs \<Longrightarrow> noDigitStart rest \<Longrightarrow> parseValue (stringify v @ rest) = Some (v, rest)"
  shows "parseMembers (commaSep (map (\<lambda>(k, v). quoted k @ CHR '':'' # stringify v) kvs) @ CHR ''}'' # rest)
     = Some (kvs, rest)"
  using assms
proof (induction kvs)
  case Nil
  then show ?case by simp
next
  case (Cons kv ys)
  obtain k v where kv: "kv = (k, v)" by (cases kv) 
  show ?case
  proof (cases ys)
    case Nil
    have "parseValue (stringify v @ CHR ''}'' # rest) = Some (v, CHR ''}'' # rest)"
      by (rule Cons.prems(2) [of k]) (simp_all add: kv)
    then have "parseMembers (quoted k @ CHR '':'' # stringify v @ CHR ''}'' # rest) = Some ([(k, v)], rest)"
      by (rule parseMembers_last)
    then show ?thesis
      using Nil kv by simp
  next
    case (Cons y zs)
    let ?tail = "commaSep (map (\<lambda>(k, v). quoted k @ CHR '':'' # stringify v) ys) @ CHR ''}'' # rest"
    have v: "parseValue (stringify v @ CHR '','' # ?tail) = Some (v, CHR '','' # ?tail)"
      by (rule Cons.prems(2) [of k]) (simp_all add: kv)
    have t: "parseMembers ?tail = Some (ys, rest)"
    proof (rule Cons.IH)
      show "ys \<noteq> []" using Cons by simp
    next
      fix k' v' r
      assume "(k', v') \<in> set ys" and "noDigitStart r"
      then show "parseValue (stringify v' @ r) = Some (v', r)"
        using Cons.prems(2) [of k' v' r] by simp
    qed
    have "parseMembers (quoted k @ CHR '':'' # stringify v @ CHR '','' # ?tail) = Some ((k, v) # ys, rest)"
      using v t by (rule parseMembers_next)
    then show ?thesis
      using Cons kv by simp
  qed
qed

lemma commaSep_first:
  "xs \<noteq> [] \<Longrightarrow> \<forall>x \<in> set xs. x \<noteq> [] \<and> hd x \<noteq> c \<Longrightarrow>
   \<exists>d r. commaSep xs @ rest = d # r \<and> d \<noteq> c"
  by (induction xs rule: commaSep.induct) (auto simp: neq_Nil_conv)

lemma stringify_first: "stringify j \<noteq> [] \<and> hd (stringify j) \<noteq> CHR '']'' \<and> hd (stringify j) \<noteq> CHR ''}''"
proof (cases j)
  case (JNumber i)
  obtain c cs where "digits10 (nat (- i)) = c # cs" "isDigit c"
    using digits10_Cons by blast
  moreover obtain c' cs' where "digits10 (nat i) = c' # cs'" "isDigit c'"
    using digits10_Cons by blast
  ultimately show ?thesis
    using JNumber by (auto simp: showInt_def isDigit_def)
qed (simp_all add: quoted_def)

lemma parseValue_stringify:
  "noDigitStart rest \<Longrightarrow> parseValue (stringify j @ rest) = Some (j, rest)"
proof (induction j arbitrary: rest)
  case JNull
  then show ?case by simp
next
  case (JBool b)
  then show ?case by simp
next
  case (JNumber i)
  then show ?case by (simp add: parseValue_number)
next
  case (JString s)
  then show ?case by (simp add: quoted_def parseChars_quoted)
next
  case (JArray xs)
  show ?case
  proof (cases xs)
    case Nil
    then show ?thesis by (simp add: isDigit_def)
  next
    case (Cons x ys)
    have e: "parseElements (commaSep (map stringify xs) @ CHR '']'' # rest) = Some (xs, rest)"
      using Cons JArray.IH by (intro parseElements_commaSep) simp_all
    have "\<exists>d r. commaSep (map stringify xs) @ (CHR '']'' # rest) = d # r \<and> d \<noteq> CHR '']''"
      using Cons by (intro commaSep_first) (simp_all add: stringify_first)
    then obtain d r where f: "commaSep (map stringify xs) @ CHR '']'' # rest = d # r" "d \<noteq> CHR '']''"
      by blast
    show ?thesis
      using e f by (simp add: isDigit_def)
  qed
next
  case (JObject kvs)
  show ?case
  proof (cases kvs)
    case Nil
    then show ?thesis by (simp add: isDigit_def)
  next
    case (Cons kv ys)
    let ?members = "map (\<lambda>(k, v). quoted k @ CHR '':'' # stringify v) kvs"
    have e: "parseMembers (commaSep ?members @ CHR ''}'' # rest) = Some (kvs, rest)"
    proof (rule parseMembers_commaSep)
      show "kvs \<noteq> []" using Cons by simp
    next
      fix k v r
      assume "(k, v) \<in> set kvs" and "noDigitStart r"
      then show "parseValue (stringify v @ r) = Some (v, r)"
        using JObject.IH [of "(k, v)" v r] by simp
    qed
    have "\<exists>d r. commaSep ?members @ (CHR ''}'' # rest) = d # r \<and> d \<noteq> CHR ''}''"
      using Cons by (intro commaSep_first) (auto simp: quoted_def split: prod.splits)
    then obtain d r where f: "commaSep ?members @ CHR ''}'' # rest = d # r" "d \<noteq> CHR ''}''"
      by blast
    show ?thesis
      using e f by (simp add: isDigit_def)
  qed
qed

lemma parse_stringify: "parse (stringify j) = Some j"
  using parseValue_stringify [of "[]" j] by (simp add: parse_def)

subsection \<open>Tasks\<close>

lemma priorityOfName_priorityName: "priorityOfName (priorityName p) = Some p"
  by (cases p) (simp_all add: priorityName_def priorityOfName_def)

lemma taskFromJson_taskToJson: "taskFromJson (taskToJson task) = Some task"
  by (cases "description task"; cases "dueDate task")
    (simp_all add: taskFromJson_def taskToJson_def getString_def getBool_def getTime_def
      priorityOfName_priorityName)

lemma those_map_Some: "(\<And>x. f x = Some (g x)) \<Longrightarrow> those (map f xs) = Some (map g xs)"
  by (induction xs) simp_all

lemma tasksFromJson_tasksToJson: "tasksFromJson (tasksToJson ts) = Some ts"
  using those_map_Some [of taskFromJson "\<lambda>j. the (taskFromJson j)" "map taskToJson ts"]
  by (induction ts) (simp_all add: tasksFromJson_def tasksToJson_def taskFromJson_taskToJson)

subsection \<open>The adapter\<close>

text \<open>The three ways in which reading falls back to the default, and the swallowed write.\<close>

lemma readValue_unreadable: "\<not> readable st \<Longrightarrow> readValue decode st key defaultValue = defaultValue"
  by (simp add: readValue_def getItem_def)

lemma readValue_absent:
  "items st key = None \<Longrightarrow> readValue decode st key defaultValue = defaultValue"
  by (simp add: readValue_def getItem_def)

lemma readValue_corrupt:
  "items st key = Some text \<Longrightarrow> parse text = None \<Longrightarrow>
   readValue decode st key defaultValue = defaultValue"
  by (simp add: readValue_def getItem_def)

lemma writeValue_rejected:
  "capacity st < length (stringify (encode v)) \<Longrightarrow> writeValue encode st key v = st"
  by (simp add: writeValue_def setItem_def)

text \<open>A store without room swallows the write, and a reload finds nothing.\<close>

lemma persist_rejected_example:
  "tasks (loadStore (persistTasks fullStorage [storedTask ''1''])) = []"
proof -
  have "capacity fullStorage < length (stringify (tasksToJson [storedTask ''1'']))"
    by (simp add: fullStorage_def tasksToJson_def)
  then have "persistTasks fullStorage [storedTask ''1''] = fullStorage"
    unfolding persistTasks_def by (rule writeValue_rejected)
  then show ?thesis
    by (simp add: loadStore_def readValue_absent fullStorage_def)
qed

text \<open>
  Claim C2. When the store takes the write and can be read, persisting a task list and
  loading it into a fresh store instance gives back the same list: every task with
  every field, the three time stamps to the millisecond, absent fields absent.
\<close>

theorem persist_load_roundtrip:
  assumes "readable st" and "length (stringify (tasksToJson ts)) \<le> capacity st"
  shows "tasks (loadStore (persistTasks st ts)) = ts"
  using assms
  by (simp add: loadStore_def persistTasks_def writeValue_def readValue_def setItem_def getItem_def
      parse_stringify tasksFromJson_tasksToJson)

text \<open>
  Claim C2 on two tasks, the second one without description and due date and with a
  quotation mark in its title.
\<close>

theorem persist_load_roundtrip_witness:
  "readable roomyStorage \<and>
   length (stringify (tasksToJson
      [storedTask ''1'', (storedTask ''2'')\<lparr>title := ''say \"hi\"'', description := None, dueDate := None\<rparr>]))
     \<le> capacity roomyStorage \<and>
   tasks (loadStore (persistTasks roomyStorage
      [storedTask ''1'', (storedTask ''2'')\<lparr>title := ''say \"hi\"'', description := None, dueDate := None\<rparr>]))
     = [storedTask ''1'', (storedTask ''2'')\<lparr>title := ''say \"hi\"'', description := None, dueDate := None\<rparr>]"
proof -
  let ?ts = "[storedTask ''1'', (storedTask ''2'')\<lparr>title := ''say \"hi\"'', description := None, dueDate := None\<rparr>]"
  have r: "readable roomyStorage"
    by (simp add: roomyStorage_def)
  have c: "length (stringify (tasksToJson ?ts)) \<le> capacity roomyStorage"
    by code_simp
  show ?thesis
    using persist_load_roundtrip [OF r c] r c by simp
qed

end
